theory Spec2Isabelle
  imports Main "HOL-Library.Word"
begin

section \<open>Machine types\<close>

text \<open>
  Go's \<^verbatim>\<open>uint64\<close> is a 64-bit word: \<open>+\<close>, \<open>-\<close> and \<open>*\<close> wrap around and
  \<open>\<le>\<close>, \<open><\<close> compare unsigned. A \<^verbatim>\<open>[]byte\<close> is a list of 8-bit words; the nil
  slice and the empty slice are both \<open>[]\<close>.
\<close>

type_synonym u64 = "64 word"
type_synonym i64 = "64 word"
type_synonym bytes = "8 word list"

section \<open>The synchronizer state (indexer/synchronizer.go)\<close>

record BeaconBlockHeader =
  Message_Slot :: u64
  Message_ParentRoot :: bytes

text \<open>The block body is opaque to the synchronizer: it is only stored and handed on.\<close>

type_synonym payload = nat

record CacheBlock =
  Root :: bytes
  Slot :: u64
  header :: BeaconBlockHeader
  block :: payload

text \<open>
  The fields of \<^verbatim>\<open>synchronizerState\<close> that hold data. The two mutexes only serialise
  access and the kill channel is part of the environment of the worker (see below).
\<close>

record synchronizerState =
  running :: bool
  currentEpoch :: u64
  cachedSlot :: u64
  cachedBlocks :: "u64 \<rightharpoonup> CacheBlock"

text \<open>\<^verbatim>\<open>isEpochAhead\<close>, lines 35-44, read under the state mutex.\<close>

definition isEpochAhead :: "'a synchronizerState_scheme \<Rightarrow> u64 \<Rightarrow> bool" where
  "isEpochAhead sync epoch =
     (if running sync then (if currentEpoch sync < epoch then True else False) else False)"

section \<open>The environment of the worker\<close>

text \<open>
  Errors are values. \<open>Cause\<close> is an error handed back by a collaborator; the other
  constructors are the \<^verbatim>\<open>fmt.Errorf\<close> calls of \<^verbatim>\<open>syncEpoch\<close>, in source order.
\<close>

datatype error =
  Cause string
| FetchHeaderError u64 error
| FetchBlockError u64 error
| ValidatorStatsError u64
| BeginTxError error
| PersistError error
| SyncStateError error
| CommitError error

text \<open>A Go call returns or panics.\<close>

datatype 'a go_result = Returns 'a | Panics

record EpochAssignments =
  DependendRoot :: bytes
  DependendStateRef :: payload
  ProposerAssignments :: payload
  AttestorAssignments :: payload
  SyncAssignments :: payload

record EpochStats =
  Epoch :: u64
  DependentRoot :: bytes
  proposerAssignments :: payload
  attestorAssignments :: payload
  syncAssignments :: payload
  validatorStats :: "payload option"

text \<open>\<^verbatim>\<open>headerRsp.Data\<close>: the block root and the header.\<close>

record HeaderRsp =
  Data_Root :: bytes
  Data_Header :: BeaconBlockHeader

text \<open>
  The collaborators and the configuration are parameters of the model, since their code
  is outside the synchronizer. A call that returns \<^verbatim>\<open>(pointer, error)\<close> is a pair of
  options, \<open>None\<close> for \<^verbatim>\<open>nil\<close>. The calls of the chain-node client may also panic.
  \<^verbatim>\<open>getReadyClient\<close> only picks the client whose calls follow. The finalized epoch is an
  \<^verbatim>\<open>int64\<close>, a 64-bit word read as a signed number.
  Storage is a value of type \<open>'db\<close>. A transaction works on a copy of it:
  \<^verbatim>\<open>persistEpochData\<close> and \<^verbatim>\<open>db.SetExplorerState\<close> write to the copy or fail, a
  successful \<^verbatim>\<open>tx.Commit\<close> makes the copy the storage, and \<^verbatim>\<open>tx.Rollback\<close> drops it
  (after a commit it does nothing).
\<close>

record 'db env =
  SlotsPerEpoch :: u64
  SyncEpochCooldown :: int
  IsEpochSynchronized :: "'db \<Rightarrow> u64 \<Rightarrow> bool"
  GetEpochAssignments :: "u64 \<Rightarrow> (EpochAssignments option \<times> error option) go_result"
  GetBlockHeaderBySlot :: "u64 \<Rightarrow> (HeaderRsp option \<times> error option) go_result"
  GetBlockBodyByBlockroot :: "bytes \<Rightarrow> (payload option \<times> error option) go_result"
  loadValidatorStats :: "payload \<Rightarrow> payload option"
  aggregateEpochVotes :: "(u64 \<rightharpoonup> CacheBlock) \<Rightarrow> u64 \<Rightarrow> EpochStats \<Rightarrow> bytes \<Rightarrow> payload"
  Beginx :: "error option"
  persistEpochData ::
    "u64 \<Rightarrow> (u64 \<rightharpoonup> CacheBlock) \<Rightarrow> EpochStats \<Rightarrow> payload \<Rightarrow> 'db \<Rightarrow> error + 'db"
  SetExplorerState :: "string \<Rightarrow> u64 \<Rightarrow> 'db \<Rightarrow> error + 'db"
  tx_Commit :: "error option"
  getFinalizedHead :: i64

text \<open>The calls the worker makes on its collaborators, in the order it makes them.\<close>

datatype call =
  Call_GetEpochAssignments u64
| Call_GetBlockHeaderBySlot u64
| Call_GetBlockBodyByBlockroot bytes
| Call_loadValidatorStats payload
| Call_aggregateEpochVotes u64 bytes
| Call_Beginx
| Call_persistEpochData u64
| Call_SetExplorerState string u64
| Call_Commit
| Call_Rollback
| Call_Sleep nat
| Log_uncaught_panic

text \<open>
  What the worker works on: the synchronizer's fields, the kill channel, storage and the
  record of calls. The kill channel is unbuffered, so a receive succeeds exactly when a
  sender is waiting at that moment: \<open>killChan\<close> lists, for the successive receive
  attempts of the worker, whether a signal is taken (none once the list is used up).
\<close>

record 'db world = synchronizerState +
  killChan :: "bool list"
  database :: "'db"
  calls :: "call list"

definition logc :: "call \<Rightarrow> 'db world \<Rightarrow> 'db world" where
  "logc c s = s\<lparr>calls := calls s @ [c]\<rparr>"

text \<open>
  \<^verbatim>\<open>checkKillChan\<close>, lines 119-135: both branches are a receive on the kill channel; with a
  timeout the receive waits that long for a sender, without one it does not wait. Either
  way the answer is whether a signal was taken.
\<close>

definition checkKillChan :: "int \<Rightarrow> 'db world \<Rightarrow> bool \<times> 'db world" where
  "checkKillChan timeout s =
     (if timeout > 0 then
        (case killChan s of
           [] \<Rightarrow> (False, s)
         | k # ks \<Rightarrow> (k, s\<lparr>killChan := ks\<rparr>))
      else
        (case killChan s of
           [] \<Rightarrow> (False, s)
         | k # ks \<Rightarrow> (k, s\<lparr>killChan := ks\<rparr>)))"

section \<open>The epoch step\<close>

text \<open>
  \<^verbatim>\<open>for slot := firstSlot; slot <= lastSlot; slot++ { body }\<close> on \<^verbatim>\<open>uint64\<close>. The body
  answers \<open>None\<close> to go on with the next slot and \<open>Some r\<close> to leave the loop
  (\<^verbatim>\<open>break\<close> or \<^verbatim>\<open>return\<close>) with \<open>r\<close>. \<open>slot + 1\<close> wraps around, so the loop does not
  end by itself when \<open>lastSlot\<close> is the largest \<^verbatim>\<open>uint64\<close>: not returning is \<open>None\<close>.
\<close>

partial_function (option) for_slots ::
  "(u64 \<Rightarrow> 's \<Rightarrow> 'r option \<times> 's) \<Rightarrow> u64 \<Rightarrow> u64 \<Rightarrow> 's \<Rightarrow> ('r option \<times> 's) option"
where
  "for_slots body slot lastSlot s =
     (if slot \<le> lastSlot then
        (case body slot s of
           (Some r, s') \<Rightarrow> Some (Some r, s')
         | (None, s') \<Rightarrow> for_slots body (slot + 1) lastSlot s')
      else Some (None, s))"

declare for_slots.simps [code]

text \<open>
  The body of the fetch loop, lines 159-181. \<open>Some r\<close> is a \<^verbatim>\<open>return\<close> of
  \<^verbatim>\<open>syncEpoch\<close>. A nil \<^verbatim>\<open>blockRsp\<close> without an error is dereferenced at line 180.
\<close>

definition load_slot ::
  "'db env \<Rightarrow> u64 \<Rightarrow> 'db world \<Rightarrow> (bool \<times> error option) go_result option \<times> 'db world"
where
  "load_slot env slot s =
     (if cachedSlot s \<ge> slot then (None, s)
      else
        (let s1 = logc (Call_GetBlockHeaderBySlot slot) s in
         case GetBlockHeaderBySlot env slot of
           Panics \<Rightarrow> (Some Panics, s1)
         | Returns (headerRsp, err) \<Rightarrow>
             (case err of
                Some e \<Rightarrow> (Some (Returns (False, Some (FetchHeaderError slot e))), s1)
              | None \<Rightarrow>
                  (case headerRsp of
                     None \<Rightarrow> (None, s1)
                   | Some h \<Rightarrow>
                       (let (killed, s2) = checkKillChan 0 s1 in
                        if killed then (Some (Returns (False, None)), s2)
                        else
                          (let s3 = logc (Call_GetBlockBodyByBlockroot (Data_Root h)) s2 in
                           case GetBlockBodyByBlockroot env (Data_Root h) of
                             Panics \<Rightarrow> (Some Panics, s3)
                           | Returns (blockRsp, err) \<Rightarrow>
                               (case err of
                                  Some e \<Rightarrow>
                                    (Some (Returns (False, Some (FetchBlockError slot e))), s3)
                                | None \<Rightarrow>
                                    (case blockRsp of
                                       None \<Rightarrow> (Some Panics, s3)
                                     | Some b \<Rightarrow>
                                         (None,
                                          s3\<lparr>cachedBlocks := (cachedBlocks s3)(slot \<mapsto>
                                             \<lparr>Root = Data_Root h, Slot = slot,
                                              header = Data_Header h, block = b\<rparr>)\<rparr>)))))))))"

definition load_blocks ::
  "'db env \<Rightarrow> u64 \<Rightarrow> u64 \<Rightarrow> 'db world
     \<Rightarrow> ((bool \<times> error option) go_result option \<times> 'db world) option"
where
  "load_blocks env firstSlot lastSlot s = for_slots (load_slot env) firstSlot lastSlot s"

text \<open>
  Lines 207-214: the first cached block of the epoch's own slots. The loop state is
  the cache, which the loop only reads; \<open>Some b\<close> is the \<^verbatim>\<open>break\<close> with \<^verbatim>\<open>firstBlock\<close>.
\<close>

definition first_block_at :: "u64 \<Rightarrow> (u64 \<rightharpoonup> CacheBlock) \<Rightarrow> CacheBlock option \<times> (u64 \<rightharpoonup> CacheBlock)"
where
  "first_block_at slot cache = (cache slot, cache)"

definition find_firstBlock ::
  "(u64 \<rightharpoonup> CacheBlock) \<Rightarrow> u64 \<Rightarrow> u64 \<Rightarrow> CacheBlock option option"
where
  "find_firstBlock cache firstSlot lastSlot =
     map_option fst (for_slots first_block_at firstSlot lastSlot cache)"

text \<open>Lines 216-223; the nil \<^verbatim>\<open>targetRoot\<close> is \<open>[]\<close>.\<close>

definition targetRoot_of :: "CacheBlock option \<Rightarrow> u64 \<Rightarrow> bytes" where
  "targetRoot_of firstBlock firstSlot =
     (case firstBlock of
        None \<Rightarrow> []
      | Some b \<Rightarrow>
          if Message_Slot (header b) = firstSlot then Root b
          else Message_ParentRoot (header b))"

text \<open>Lines 249-254: the cache without the slots of this epoch.\<close>

definition evict_slot :: "u64 \<Rightarrow> (u64 \<rightharpoonup> CacheBlock) \<Rightarrow> unit option \<times> (u64 \<rightharpoonup> CacheBlock)"
where
  "evict_slot slot cache = (None, if cache slot \<noteq> None then cache(slot := None) else cache)"

definition cleanup_cache ::
  "(u64 \<rightharpoonup> CacheBlock) \<Rightarrow> u64 \<Rightarrow> u64 \<Rightarrow> (u64 \<rightharpoonup> CacheBlock) option"
where
  "cleanup_cache cache firstSlot lastSlot =
     map_option snd (for_slots evict_slot firstSlot lastSlot cache)"

text \<open>
  Lines 233-247, inside the transaction \<open>tx\<close>: the epoch's data, then the sync state,
  then the commit. The result is the error of \<^verbatim>\<open>syncEpoch\<close>, or the committed storage.
\<close>

definition save_epoch ::
  "'db env \<Rightarrow> u64 \<Rightarrow> (u64 \<rightharpoonup> CacheBlock) \<Rightarrow> EpochStats \<Rightarrow> payload \<Rightarrow> 'db world
     \<Rightarrow> error option \<times> 'db world"
where
  "save_epoch env epoch cache epochStats epochVotes s =
     (let tx = database s;
          s1 = logc (Call_persistEpochData epoch) s in
      case persistEpochData env epoch cache epochStats epochVotes tx of
        Inl err \<Rightarrow> (Some (PersistError err), s1)
      | Inr tx1 \<Rightarrow>
          (let s2 = logc (Call_SetExplorerState ''indexer.syncstate'' epoch) s1 in
           case SetExplorerState env ''indexer.syncstate'' epoch tx1 of
             Inl err \<Rightarrow> (Some (SyncStateError err), s2)
           | Inr tx2 \<Rightarrow>
               (let s3 = logc Call_Commit s2 in
                case tx_Commit env of
                  Some err \<Rightarrow> (Some (CommitError err), s3)
                | None \<Rightarrow> (None, s3\<lparr>database := tx2\<rparr>))))"

text \<open>
  Lines 206-256, entered with the statistics loaded: target root, votes, transaction,
  eviction. The deferred \<^verbatim>\<open>tx.Rollback\<close> runs when the function is left.
\<close>

definition syncEpoch_process ::
  "'db env \<Rightarrow> u64 \<Rightarrow> EpochStats \<Rightarrow> 'db world
     \<Rightarrow> ((bool \<times> error option) go_result \<times> 'db world) option"
where
  "syncEpoch_process env epoch epochStats s =
     (let firstSlot = epoch * SlotsPerEpoch env;
          lastSlot = firstSlot + SlotsPerEpoch env - 1
      in case find_firstBlock (cachedBlocks s) firstSlot lastSlot of
           None \<Rightarrow> None
         | Some firstBlock \<Rightarrow>
             (let targetRoot = targetRoot_of firstBlock firstSlot;
                  s1 = logc (Call_aggregateEpochVotes epoch targetRoot) s;
                  epochVotes =
                    aggregateEpochVotes env (cachedBlocks s1) epoch epochStats targetRoot;
                  s2 = logc Call_Beginx s1
              in case Beginx env of
                   Some err \<Rightarrow> Some (Returns (False, Some (BeginTxError err)), s2)
                 | None \<Rightarrow>
                     (case save_epoch env epoch (cachedBlocks s2) epochStats epochVotes s2 of
                        (Some err, s3) \<Rightarrow> Some (Returns (False, Some err), logc Call_Rollback s3)
                      | (None, s3) \<Rightarrow>
                          (case cleanup_cache (cachedBlocks s3) firstSlot lastSlot of
                             None \<Rightarrow> None
                           | Some cache \<Rightarrow>
                               Some (Returns (True, None),
                                     logc Call_Rollback (s3\<lparr>cachedBlocks := cache\<rparr>))))))"

text \<open>
  Lines 155-204, entered with the assignments loaded and no stop signal at line 151:
  the fetch loop over this epoch and the next, the high-water mark, the statistics.
  The error value printed at line 200 is the nil one of line 145.
\<close>

definition syncEpoch_fetch ::
  "'db env \<Rightarrow> u64 \<Rightarrow> EpochAssignments \<Rightarrow> 'db world
     \<Rightarrow> ((bool \<times> error option) go_result \<times> 'db world) option"
where
  "syncEpoch_fetch env epoch epochAssignments s =
     (let firstSlot = epoch * SlotsPerEpoch env;
          lastSlot = firstSlot + (SlotsPerEpoch env * 2) - 1
      in case load_blocks env firstSlot lastSlot s of
           None \<Rightarrow> None
         | Some (Some r, s1) \<Rightarrow> Some (r, s1)
         | Some (None, s1) \<Rightarrow>
             (let s2 = s1\<lparr>cachedSlot := lastSlot\<rparr>;
                  (killed, s3) = checkKillChan 0 s2
              in if killed then Some (Returns (False, None), s3)
                 else
                   (let s4 = logc (Call_loadValidatorStats (DependendStateRef epochAssignments)) s3;
                        epochStats =
                          \<lparr>Epoch = epoch,
                           DependentRoot = DependendRoot epochAssignments,
                           proposerAssignments = ProposerAssignments epochAssignments,
                           attestorAssignments = AttestorAssignments epochAssignments,
                           syncAssignments = SyncAssignments epochAssignments,
                           validatorStats =
                             loadValidatorStats env (DependendStateRef epochAssignments)\<rparr>
                    in if validatorStats epochStats = None
                       then Some (Returns (False, Some (ValidatorStatsError epoch)), s4)
                       else
                         (let (killed, s5) = checkKillChan 0 s4
                          in if killed then Some (Returns (False, None), s5)
                             else syncEpoch_process env epoch epochStats s5))))"

text \<open>\<^verbatim>\<open>syncEpoch\<close>, lines 137-153, and on to the two parts above.\<close>

definition syncEpoch ::
  "'db env \<Rightarrow> u64 \<Rightarrow> 'db world \<Rightarrow> ((bool \<times> error option) go_result \<times> 'db world) option"
where
  "syncEpoch env epoch s =
     (if IsEpochSynchronized env (database s) epoch then Some (Returns (True, None), s)
      else
        (let s1 = logc (Call_GetEpochAssignments epoch) s in
         case GetEpochAssignments env epoch of
           Panics \<Rightarrow> Some (Panics, s1)
         | Returns (epochAssignments, err) \<Rightarrow>
             (case epochAssignments of
                None \<Rightarrow> Some (Returns (False, err), s1)
              | Some assignments \<Rightarrow>
                  if err \<noteq> None then Some (Returns (False, err), s1)
                  else
                    (let (killed, s2) = checkKillChan 0 s1
                     in if killed then Some (Returns (False, None), s2)
                        else syncEpoch_fetch env epoch assignments s2))))"

section \<open>The worker\<close>

text \<open>
  One turn of the loop of \<^verbatim>\<open>runSync\<close>, lines 85-107. \<open>Some isComplete\<close> is a
  \<^verbatim>\<open>break\<close>, \<open>None\<close> goes round again. \<^verbatim>\<open>int64(syncEpoch) > finalizedEpoch\<close> compares
  the two words as signed numbers.
\<close>

definition runSync_turn ::
  "'db env \<Rightarrow> 'db world \<Rightarrow> (bool option go_result \<times> 'db world) option"
where
  "runSync_turn env s =
     (let syncEpoch0 = currentEpoch s in
      case syncEpoch env syncEpoch0 s of
        None \<Rightarrow> None
      | Some (Panics, s1) \<Rightarrow> Some (Panics, s1)
      | Some (Returns (done, err), s1) \<Rightarrow>
          (let finalizedEpoch = getFinalizedHead env;
               syncEpoch1 = syncEpoch0 + 1;
               s2 = (if done then s1\<lparr>currentEpoch := syncEpoch1\<rparr>
                     else if err \<noteq> None then logc (Call_Sleep 10) s1
                     else s1)
           in if done \<and> sint syncEpoch1 > sint finalizedEpoch then Some (Returns (Some True), s2)
              else
                (let (killed, s3) = checkKillChan (SyncEpochCooldown env) s2
                 in if killed then Some (Returns (Some False), s3)
                    else Some (Returns None, s3))))"

text \<open>
  The loop, lines 84-108. The collaborators may answer differently from one turn to the
  next: \<open>envs i\<close> is the environment of turn \<open>i\<close>. The loop may go on for ever.
\<close>

partial_function (option) runSync_loop ::
  "(nat \<Rightarrow> 'db env) \<Rightarrow> nat \<Rightarrow> 'db world \<Rightarrow> (bool go_result \<times> 'db world) option"
where
  "runSync_loop envs i s =
     (case runSync_turn (envs i) s of
        None \<Rightarrow> None
      | Some (Panics, s1) \<Rightarrow> Some (Panics, s1)
      | Some (Returns (Some isComplete), s1) \<Rightarrow> Some (Returns isComplete, s1)
      | Some (Returns None, s1) \<Rightarrow> runSync_loop envs (Suc i) s1)"

declare runSync_loop.simps [code]

text \<open>
  \<^verbatim>\<open>runSync\<close>, lines 69-117. A panic leaves the function at once: the deferred
  functions run (the run mutex is released, \<^verbatim>\<open>recover\<close> logs the panic with the stack)
  and lines 110-116 do not.
\<close>

definition runSync :: "(nat \<Rightarrow> 'db env) \<Rightarrow> 'db world \<Rightarrow> 'db world option" where
  "runSync envs s =
     (let s0 = s\<lparr>cachedBlocks := Map.empty, cachedSlot := 0\<rparr> in
      case runSync_loop envs 0 s0 of
        None \<Rightarrow> None
      | Some (Panics, s1) \<Rightarrow> Some (logc Log_uncaught_panic s1)
      | Some (Returns isComplete, s1) \<Rightarrow> Some (s1\<lparr>running := False\<rparr>))"

section \<open>Conditions and frames used in the statements\<close>

text \<open>
  The two loop bounds of \<^verbatim>\<open>syncEpoch\<close> (lines 157 and 208) are not the largest
  \<^verbatim>\<open>uint64\<close>, so that its loops end. This holds whenever \<^verbatim>\<open>SlotsPerEpoch\<close> is
  positive and the slots of the epoch and of the next one are below \<open>2 ^ 64\<close>
  (lemma \<open>no_overflow_loops_end\<close>).
\<close>

definition loops_end :: "'db env \<Rightarrow> u64 \<Rightarrow> bool" where
  "loops_end env epoch \<longleftrightarrow>
     epoch * SlotsPerEpoch env + (SlotsPerEpoch env * 2) - 1 \<noteq> - 1 \<and>
     epoch * SlotsPerEpoch env + SlotsPerEpoch env - 1 \<noteq> - 1"

text \<open>
  What the fetch loop may change between two states: nothing of the flag, the epoch
  cursor, the high-water mark and storage; cache entries only at slots of the loop's
  range above the high-water mark; and it adds calls, with header requests only for
  such slots.
\<close>

definition load_frame :: "u64 \<Rightarrow> u64 \<Rightarrow> 'db world \<Rightarrow> 'db world \<Rightarrow> bool" where
  "load_frame firstSlot lastSlot s s' \<longleftrightarrow>
     running s' = running s \<and> currentEpoch s' = currentEpoch s \<and>
     cachedSlot s' = cachedSlot s \<and> database s' = database s \<and>
     (\<forall>k. cachedBlocks s' k \<noteq> cachedBlocks s k \<longrightarrow>
          firstSlot \<le> k \<and> k \<le> lastSlot \<and> cachedSlot s < k) \<and>
     (\<exists>new. calls s' = calls s @ new \<and>
          (\<forall>k. Call_GetBlockHeaderBySlot k \<in> set new \<longrightarrow>
               firstSlot \<le> k \<and> k \<le> lastSlot \<and> cachedSlot s < k))"

text \<open>The same up to line 204, where the high-water mark may have moved to the bound.\<close>

definition fetch_frame :: "u64 \<Rightarrow> u64 \<Rightarrow> 'db world \<Rightarrow> 'db world \<Rightarrow> bool" where
  "fetch_frame firstSlot lastSlot s s' \<longleftrightarrow>
     running s' = running s \<and> currentEpoch s' = currentEpoch s \<and>
     database s' = database s \<and>
     (cachedSlot s' = cachedSlot s \<or> cachedSlot s' = lastSlot) \<and>
     (\<forall>k. cachedBlocks s' k \<noteq> cachedBlocks s k \<longrightarrow>
          firstSlot \<le> k \<and> k \<le> lastSlot \<and> cachedSlot s < k) \<and>
     (\<exists>new. calls s' = calls s @ new \<and>
          (\<forall>k. Call_GetBlockHeaderBySlot k \<in> set new \<longrightarrow>
               firstSlot \<le> k \<and> k \<le> lastSlot \<and> cachedSlot s < k))"

text \<open>
  What an epoch step that answers \<open>res\<close> may have done to storage: with the answer
  \<^verbatim>\<open>(true, nil)\<close> of a step that went through, the transaction was opened and
  committed and storage is its copy after the epoch's data and then the sync state were
  written to it (\<open>Inr\<close> is a write that succeeded, \<open>Inl\<close> one that failed); with any
  other answer storage is as before.
\<close>

definition storage_effect ::
  "'db env \<Rightarrow> u64 \<Rightarrow> 'db world \<Rightarrow> (bool \<times> error option) go_result \<Rightarrow> 'db world \<Rightarrow> bool"
where
  "storage_effect env epoch s res s' \<longleftrightarrow>
     (if res = Returns (True, None) then
        Beginx env = None \<and> tx_Commit env = None \<and>
        (\<exists>cache stats votes tx1.
           persistEpochData env epoch cache stats votes (database s) = Inr tx1 \<and>
           SetExplorerState env ''indexer.syncstate'' epoch tx1 = Inr (database s'))
      else database s' = database s)"

text \<open>
  The spec's words for the target root of an epoch whose own slots run from
  \<open>firstSlot\<close> to \<open>lastSlot\<close>: empty when no block is cached at any of these slots;
  otherwise, with \<open>b\<close> the block at the first of these slots that has one, the root of
  \<open>b\<close> when the slot in its header is the epoch's first slot, and its parent root
  when not.
\<close>

definition spec_targetRoot :: "(u64 \<rightharpoonup> CacheBlock) \<Rightarrow> u64 \<Rightarrow> u64 \<Rightarrow> bytes \<Rightarrow> bool" where
  "spec_targetRoot cache firstSlot lastSlot targetRoot \<longleftrightarrow>
     ((\<forall>k. firstSlot \<le> k \<and> k \<le> lastSlot \<longrightarrow> cache k = None) \<longrightarrow> targetRoot = []) \<and>
     (\<forall>slot b.
        firstSlot \<le> slot \<and> slot \<le> lastSlot \<and> cache slot = Some b \<and>
        (\<forall>k. firstSlot \<le> k \<and> k < slot \<longrightarrow> cache k = None) \<longrightarrow>
        targetRoot =
          (if Message_Slot (header b) = firstSlot then Root b
           else Message_ParentRoot (header b)))"

text \<open>A sequence of epoch steps, one call after the other, with the answers in order.\<close>

fun syncEpochs ::
  "'db env \<Rightarrow> u64 list \<Rightarrow> 'db world
     \<Rightarrow> ((bool \<times> error option) go_result list \<times> 'db world) option"
where
  "syncEpochs env [] s = Some ([], s)"
| "syncEpochs env (epoch # epochs) s =
     (case syncEpoch env epoch s of
        None \<Rightarrow> None
      | Some (r, s1) \<Rightarrow>
          (case syncEpochs env epochs s1 of
             None \<Rightarrow> None
           | Some (rs, s2) \<Rightarrow> Some (r # rs, s2)))"

section \<open>A small chain and storage for the worked examples\<close>

text \<open>
  Two slots per epoch. Blocks exist at the slots 1, 2 and 5; the root of the block at
  slot \<open>n\<close> is the byte \<open>n\<close>, its parent is the block before it. Storage keeps the
  epochs whose data was written and the sync state, and reports an epoch as
  synchronized when its data is there. Every call succeeds; the examples below change
  single answers.
\<close>

record example_db =
  synced_epochs :: "u64 list"
  sync_state :: "u64 option"

definition example_header :: "u64 \<Rightarrow> (HeaderRsp option \<times> error option) go_result" where
  "example_header slot =
     (if slot = 1 then
        Returns (Some \<lparr>Data_Root = [1],
                        Data_Header = \<lparr>Message_Slot = 1, Message_ParentRoot = [0]\<rparr>\<rparr>, None)
      else if slot = 2 then
        Returns (Some \<lparr>Data_Root = [2],
                        Data_Header = \<lparr>Message_Slot = 2, Message_ParentRoot = [1]\<rparr>\<rparr>, None)
      else if slot = 5 then
        Returns (Some \<lparr>Data_Root = [5],
                        Data_Header = \<lparr>Message_Slot = 5, Message_ParentRoot = [2]\<rparr>\<rparr>, None)
      else Returns (None, None))"

definition example_env :: "example_db env" where
  "example_env =
     \<lparr>SlotsPerEpoch = 2,
      SyncEpochCooldown = 1,
      IsEpochSynchronized = (\<lambda>db epoch. epoch \<in> set (synced_epochs db)),
      GetEpochAssignments = (\<lambda>epoch.
        Returns (Some \<lparr>DependendRoot = [], DependendStateRef = 0, ProposerAssignments = 0,
                        AttestorAssignments = 0, SyncAssignments = 0\<rparr>, None)),
      GetBlockHeaderBySlot = example_header,
      GetBlockBodyByBlockroot = (\<lambda>root. Returns (Some 0, None)),
      loadValidatorStats = (\<lambda>stateRef. Some 0),
      aggregateEpochVotes = (\<lambda>cache epoch stats targetRoot. 0),
      Beginx = None,
      persistEpochData = (\<lambda>epoch cache stats votes tx.
        Inr (tx\<lparr>synced_epochs := epoch # synced_epochs tx\<rparr>)),
      SetExplorerState = (\<lambda>key epoch tx. Inr (tx\<lparr>sync_state := Some epoch\<rparr>)),
      tx_Commit = None,
      getFinalizedHead = 0\<rparr>"

definition example_world :: "example_db world" where
  "example_world =
     \<lparr>running = True, currentEpoch = 0, cachedSlot = 0, cachedBlocks = Map.empty,
      killChan = [],
      database = \<lparr>synced_epochs = [], sync_state = None\<rparr>,
      calls = []\<rparr>"

text \<open>The block at slot 5 as the cache holds it, and statistics for epoch 2.\<close>

definition example_block5 :: CacheBlock where
  "example_block5 =
     \<lparr>Root = [5], Slot = 5,
      header = \<lparr>Message_Slot = 5, Message_ParentRoot = [2]\<rparr>, block = 0\<rparr>"

definition example_stats :: EpochStats where
  "example_stats =
     \<lparr>Epoch = 2, DependentRoot = [], proposerAssignments = 0, attestorAssignments = 0,
      syncAssignments = 0, validatorStats = Some 0\<rparr>"

section \<open>The slot page handler (handlers/slot.go)\<close>

text \<open>
  \<^verbatim>\<open>strings.Replace(s, "0x", "", -1)\<close>: every non-overlapping occurrence of \<^verbatim>\<open>0x\<close>,
  found from the left, is removed.
\<close>

fun strings_Replace_0x :: "string \<Rightarrow> string" where
  "strings_Replace_0x (a # b # cs) =
     (if a = CHR ''0'' \<and> b = CHR ''x'' then strings_Replace_0x cs
      else a # strings_Replace_0x (b # cs))"
| "strings_Replace_0x cs = cs"

text \<open>
  \<^verbatim>\<open>encoding/hex\<close> of the Go standard library: a character decodes when it is one of
  \<^verbatim>\<open>0-9\<close>, \<^verbatim>\<open>a-f\<close>, \<^verbatim>\<open>A-F\<close>; \<^verbatim>\<open>DecodeString\<close> fails on any other character and on
  an odd length. The handler drops the partial result on failure, so a failure is \<open>None\<close>.
\<close>

definition fromHexChar :: "char \<Rightarrow> int option" where
  "fromHexChar c =
     (let n = (of_char c :: int) in
      if 48 \<le> n \<and> n \<le> 57 then Some (n - 48)
      else if 97 \<le> n \<and> n \<le> 102 then Some (n - 87)
      else if 65 \<le> n \<and> n \<le> 70 then Some (n - 55)
      else None)"

fun hex_DecodeString :: "string \<Rightarrow> bytes option" where
  "hex_DecodeString [] = Some []"
| "hex_DecodeString [p] = None"
| "hex_DecodeString (p # q # src) =
     (case fromHexChar p of
        None \<Rightarrow> None
      | Some a \<Rightarrow>
          (case fromHexChar q of
             None \<Rightarrow> None
           | Some b \<Rightarrow>
               (case hex_DecodeString src of
                  None \<Rightarrow> None
                | Some dst \<Rightarrow> Some (word_of_int (a * 16 + b) # dst))))"

text \<open>
  \<^verbatim>\<open>strconv.ParseInt(s, 10, 64)\<close> of the Go standard library: an optional sign, then one
  or more decimal digits; the value has to fit an \<^verbatim>\<open>int64\<close>. Both the syntax error and the
  range error are \<open>None\<close>. The digits are accumulated in an unbounded \<open>int\<close> and the range
  is checked at the end, which accepts the same strings as Go's check at every digit.
\<close>

fun parse_digits :: "string \<Rightarrow> int \<Rightarrow> int option" where
  "parse_digits [] n = Some n"
| "parse_digits (c # cs) n =
     (let d = (of_char c :: int) in
      if 48 \<le> d \<and> d \<le> 57 then parse_digits cs (n * 10 + (d - 48)) else None)"

definition strconv_ParseUint :: "string \<Rightarrow> int option" where
  "strconv_ParseUint s = (if s = [] then None else parse_digits s 0)"

definition strconv_ParseInt :: "string \<Rightarrow> int option" where
  "strconv_ParseInt s0 =
     (if s0 = [] then None
      else
        (let neg = (hd s0 = CHR ''-'');
             s = (if hd s0 = CHR ''+'' \<or> hd s0 = CHR ''-'' then tl s0 else s0)
         in case strconv_ParseUint s of
              None \<Rightarrow> None
            | Some un \<Rightarrow>
                if \<not> neg \<and> un \<ge> 2 ^ 63 then None
                else if neg \<and> un > 2 ^ 63 then None
                else Some (if neg then - un else un)))"

text \<open>
  The handler \<^verbatim>\<open>Slot\<close>, lines 42-58. Its first part decides between the not-found page
  and the lookup in the beacon service, which starts at line 58 with the values of
  \<^verbatim>\<open>blockSlot\<close> and \<^verbatim>\<open>blockRootHash\<close>. The page title is \<^verbatim>\<open>"Slot " + slotOrHash\<close>.
  \<open>Slot_by_number\<close> is the body of the \<^verbatim>\<open>if err != nil || len(slotOrHash) != 64\<close>,
  which parses the parameter as it was sent, not the stripped one.
\<close>

datatype slot_page =
  RenderNotFound string
| BeaconServiceLookup int bytes

definition Slot_by_number :: "string \<Rightarrow> string \<Rightarrow> slot_page" where
  "Slot_by_number param slotOrHash =
     (case strconv_ParseInt param of
        None \<Rightarrow> RenderNotFound (''Slot '' @ slotOrHash)
      | Some blockSlot \<Rightarrow>
          if blockSlot \<ge> 2147483648 then RenderNotFound (''Slot '' @ slotOrHash)
          else BeaconServiceLookup blockSlot [])"

definition Slot_handler :: "string \<Rightarrow> slot_page" where
  "Slot_handler param =
     (let slotOrHash = strings_Replace_0x param in
      case hex_DecodeString slotOrHash of
        None \<Rightarrow> Slot_by_number param slotOrHash
      | Some blockRootHash \<Rightarrow>
          if length slotOrHash \<noteq> 64 then Slot_by_number param slotOrHash
          else BeaconServiceLookup (- 1) blockRootHash)"

text \<open>The spec's words: a block root is written as 64 hexadecimal characters.\<close>

definition is_hex_char :: "char \<Rightarrow> bool" where
  "is_hex_char c = (c \<in> set ''0123456789abcdefABCDEF'')"

definition is_block_root_hex :: "string \<Rightarrow> bool" where
  "is_block_root_hex s = (length s = 64 \<and> list_all is_hex_char s)"

section \<open>Loops over slots\<close>

lemma word_succ_unat:
  fixes slot :: u64
  assumes "slot \<le> lastSlot" "lastSlot \<noteq> - 1"
  shows "unat (slot + 1) = Suc (unat slot)"
proof -
  have "slot \<noteq> - 1"
    using assms by (metis word_order.extremum_unique)
  then have "1 + slot \<noteq> 0"
    by (simp add: add_eq_0_iff)
  then have "unat (1 + slot) = Suc (unat slot)"
    by (rule unatSuc)
  then show ?thesis by (simp add: add.commute)
qed

lemma for_slots_rule:
  fixes lastSlot :: u64
  assumes last: "lastSlot \<noteq> - 1"
    and init: "I firstSlot s"
    and step: "\<And>slot s r s'. slot \<le> lastSlot \<Longrightarrow> I slot s \<Longrightarrow> body slot s = (r, s')
                 \<Longrightarrow> (case r of None \<Rightarrow> I (slot + 1) s' | Some x \<Rightarrow> Q (Some x, s'))"
    and fin: "\<And>slot s. \<not> slot \<le> lastSlot \<Longrightarrow> I slot s \<Longrightarrow> Q (None, s)"
  shows "\<exists>res. for_slots body firstSlot lastSlot s = Some res \<and> Q res"
  using init
proof (induction "Suc (unat lastSlot) - unat firstSlot" arbitrary: firstSlot s rule: less_induct)
  case less
  show ?case
  proof (cases "firstSlot \<le> lastSlot")
    case False
    with fin less.prems show ?thesis
      by (subst for_slots.simps) simp
  next
    case True
    obtain r s' where b: "body firstSlot s = (r, s')"
      by force
    show ?thesis
    proof (cases r)
      case None
      with step [OF True less.prems b] have inv: "I (firstSlot + 1) s'"
        by simp
      have "unat (firstSlot + 1) = Suc (unat firstSlot)"
        using True last by (rule word_succ_unat)
      moreover have "unat firstSlot \<le> unat lastSlot"
        using True by (simp add: word_le_nat_alt)
      ultimately have "Suc (unat lastSlot) - unat (firstSlot + 1) < Suc (unat lastSlot) - unat firstSlot"
        by simp
      from less.hyps [OF this inv]
      obtain res where "for_slots body (firstSlot + 1) lastSlot s' = Some res" "Q res"
        by blast
      with True b None show ?thesis
        by (subst for_slots.simps) simp
    next
      case (Some x)
      with step [OF True less.prems b] have "Q (Some x, s')"
        by simp
      with True b Some show ?thesis
        by (subst for_slots.simps) simp
    qed
  qed
qed

lemma word_less_succ:
  fixes k :: u64
  assumes "slot \<le> lastSlot" "lastSlot \<noteq> - 1"
  shows "k < slot + 1 \<longleftrightarrow> k \<le> slot"
  using word_succ_unat [OF assms] by (simp add: word_less_nat_alt word_le_nat_alt) linarith

lemma find_firstBlock_spec:
  fixes lastSlot :: u64
  assumes "lastSlot \<noteq> - 1"
  shows "\<exists>fb. find_firstBlock cache firstSlot lastSlot = Some fb \<and>
           (case fb of
              None \<Rightarrow> \<forall>k. firstSlot \<le> k \<and> k \<le> lastSlot \<longrightarrow> cache k = None
            | Some b \<Rightarrow> \<exists>slot. firstSlot \<le> slot \<and> slot \<le> lastSlot \<and> cache slot = Some b \<and>
                 (\<forall>k. firstSlot \<le> k \<and> k < slot \<longrightarrow> cache k = None))"
proof -
  let ?I = "\<lambda>slot c. c = cache \<and> firstSlot \<le> slot \<and> (\<forall>k. firstSlot \<le> k \<and> k < slot \<longrightarrow> cache k = None)"
  let ?Q = "\<lambda>res. snd res = cache \<and> (case fst res of
              None \<Rightarrow> \<forall>k. firstSlot \<le> k \<and> k \<le> lastSlot \<longrightarrow> cache k = None
            | Some b \<Rightarrow> \<exists>slot. firstSlot \<le> slot \<and> slot \<le> lastSlot \<and> cache slot = Some b \<and>
                 (\<forall>k. firstSlot \<le> k \<and> k < slot \<longrightarrow> cache k = None))"
  have "\<exists>res. for_slots first_block_at firstSlot lastSlot cache = Some res \<and> ?Q res"
  proof (rule for_slots_rule [where I = ?I and Q = ?Q, OF assms])
    show "?I firstSlot cache" by (auto dest: leD)
  next
    fix slot s r s'
    assume le: "slot \<le> lastSlot" and inv: "?I slot s" and b: "first_block_at slot s = (r, s')"
    from b inv have r: "r = cache slot" and s': "s' = cache"
      by (auto simp: first_block_at_def)
    show "case r of None \<Rightarrow> ?I (slot + 1) s' | Some x \<Rightarrow> ?Q (Some x, s')"
    proof (cases r)
      case None
      have "firstSlot \<le> slot + 1"
        using inv word_less_succ [OF le assms, of slot] by (meson less_imp_le order_refl order_trans)
      moreover have "cache k = None" if "firstSlot \<le> k" "k < slot + 1" for k
      proof (cases "k = slot")
        case True with None r show ?thesis by simp
      next
        case False
        with that word_less_succ [OF le assms, of k] have "k < slot" by simp
        with inv that show ?thesis by simp
      qed
      ultimately show ?thesis using None s' by simp
    next
      case (Some x)
      with r have c: "cache slot = Some x" by simp
      from inv le c have "\<exists>k\<ge>firstSlot. k \<le> lastSlot \<and> cache k = Some x \<and>
          (\<forall>j. firstSlot \<le> j \<and> j < k \<longrightarrow> cache j = None)"
        by blast
      with Some s' show ?thesis by simp
    qed
  next
    fix slot s
    assume "\<not> slot \<le> lastSlot" and inv: "?I slot s"
    then have "k < slot" if "k \<le> lastSlot" for k
      using that by simp
    with inv show "?Q (None, s)" by simp
  qed
  then show ?thesis
    by (auto simp: find_firstBlock_def)
qed

lemma cleanup_cache_spec:
  fixes lastSlot :: u64
  assumes "lastSlot \<noteq> - 1"
  shows "cleanup_cache cache firstSlot lastSlot
           = Some (\<lambda>k. if firstSlot \<le> k \<and> k \<le> lastSlot then None else cache k)"
proof -
  let ?I = "\<lambda>slot c. firstSlot \<le> slot \<and>
              c = (\<lambda>k. if firstSlot \<le> k \<and> k \<le> lastSlot \<and> k < slot then None else cache k)"
  let ?Q = "\<lambda>res. res = (None, (\<lambda>k. if firstSlot \<le> k \<and> k \<le> lastSlot then None else cache k))"
  have "\<exists>res. for_slots evict_slot firstSlot lastSlot cache = Some res \<and> ?Q res"
  proof (rule for_slots_rule [where I = ?I and Q = ?Q, OF assms])
    show "?I firstSlot cache" by (auto simp: fun_eq_iff dest: leD)
  next
    fix slot s r s'
    assume le: "slot \<le> lastSlot" and inv: "?I slot s" and b: "evict_slot slot s = (r, s')"
    from b have r: "r = None" and s': "s' = s(slot := None)"
      by (auto simp: evict_slot_def fun_eq_iff split: if_splits)
    have "firstSlot \<le> slot + 1"
      using inv word_less_succ [OF le assms, of slot] by (meson less_imp_le order_refl order_trans)
    moreover have "s' = (\<lambda>k. if firstSlot \<le> k \<and> k \<le> lastSlot \<and> k < slot + 1 then None else cache k)"
      using inv le by (auto simp: s' fun_eq_iff word_less_succ [OF le assms])
    ultimately show "case r of None \<Rightarrow> ?I (slot + 1) s' | Some x \<Rightarrow> ?Q (Some x, s')"
      using r by simp
  next
    fix slot s
    assume "\<not> slot \<le> lastSlot" and inv: "?I slot s"
    then have "k < slot" if "k \<le> lastSlot" for k
      using that by simp
    with inv show "?Q (None, s)" by (auto simp: fun_eq_iff)
  qed
  then show ?thesis
    by (auto simp: cleanup_cache_def)
qed

section \<open>The parts of the epoch step\<close>

lemma logc_fields [simp]:
  "running (logc c s) = running s"
  "currentEpoch (logc c s) = currentEpoch s"
  "cachedSlot (logc c s) = cachedSlot s"
  "cachedBlocks (logc c s) = cachedBlocks s"
  "killChan (logc c s) = killChan s"
  "database (logc c s) = database s"
  "calls (logc c s) = calls s @ [c]"
  by (simp_all add: logc_def)

lemma checkKillChan_fields:
  assumes "checkKillChan t s = (killed, s')"
  shows "running s' = running s" "currentEpoch s' = currentEpoch s"
    "cachedSlot s' = cachedSlot s" "cachedBlocks s' = cachedBlocks s"
    "database s' = database s" "calls s' = calls s"
  using assms by (auto simp: checkKillChan_def split: list.splits if_splits)

lemma save_epoch_cases:
  assumes "save_epoch env epoch cache stats votes s = (r, s')"
  shows "running s' = running s" "currentEpoch s' = currentEpoch s"
    "cachedSlot s' = cachedSlot s" "cachedBlocks s' = cachedBlocks s"
    "killChan s' = killChan s"
    "\<exists>new. calls s' = calls s @ new \<and> (\<forall>k. Call_GetBlockHeaderBySlot k \<notin> set new)"
    "r \<noteq> None \<Longrightarrow> database s' = database s"
    "r = None \<Longrightarrow> \<exists>tx1. persistEpochData env epoch cache stats votes (database s) = Inr tx1
        \<and> SetExplorerState env ''indexer.syncstate'' epoch tx1 = Inr (database s')
        \<and> tx_Commit env = None"
  using assms
  by (auto simp: save_epoch_def Let_def split: sum.splits option.splits)

lemma load_frame_refl: "load_frame firstSlot lastSlot s s"
  by (simp add: load_frame_def)

lemma load_frame_trans:
  assumes "load_frame firstSlot lastSlot s s1" "load_frame firstSlot lastSlot s1 s2"
  shows "load_frame firstSlot lastSlot s s2"
proof -
  from assms obtain new1 new2 where
    n1: "calls s1 = calls s @ new1"
      "\<forall>k. Call_GetBlockHeaderBySlot k \<in> set new1 \<longrightarrow> firstSlot \<le> k \<and> k \<le> lastSlot \<and> cachedSlot s < k"
    and n2: "calls s2 = calls s1 @ new2"
      "\<forall>k. Call_GetBlockHeaderBySlot k \<in> set new2 \<longrightarrow> firstSlot \<le> k \<and> k \<le> lastSlot \<and> cachedSlot s1 < k"
    unfolding load_frame_def by blast
  have cs: "cachedSlot s1 = cachedSlot s"
    using assms(1) by (simp add: load_frame_def)
  have "calls s2 = calls s @ (new1 @ new2)"
    using n1 n2 by simp
  moreover have "\<forall>k. Call_GetBlockHeaderBySlot k \<in> set (new1 @ new2) \<longrightarrow>
      firstSlot \<le> k \<and> k \<le> lastSlot \<and> cachedSlot s < k"
    using n1 n2 cs by auto
  ultimately have "\<exists>new. calls s2 = calls s @ new \<and>
      (\<forall>k. Call_GetBlockHeaderBySlot k \<in> set new \<longrightarrow>
         firstSlot \<le> k \<and> k \<le> lastSlot \<and> cachedSlot s < k)"
    by blast
  moreover have "\<forall>k. cachedBlocks s2 k \<noteq> cachedBlocks s k \<longrightarrow>
      firstSlot \<le> k \<and> k \<le> lastSlot \<and> cachedSlot s < k"
    using assms cs unfolding load_frame_def by metis
  ultimately show ?thesis
    using assms cs unfolding load_frame_def by simp
qed

lemma load_slot_frame:
  assumes "load_slot env slot s = (r, s')" "firstSlot \<le> slot" "slot \<le> lastSlot"
  shows "load_frame firstSlot lastSlot s s'"
proof (cases "cachedSlot s \<ge> slot")
  case True
  with assms show ?thesis by (simp add: load_slot_def load_frame_refl)
next
  case False
  then have lt: "cachedSlot s < slot" by simp
  obtain killed s2 where k: "checkKillChan 0 (logc (Call_GetBlockHeaderBySlot slot) s) = (killed, s2)"
    by force
  note kf = checkKillChan_fields [OF k]
  from assms(1) False k have
    "s' = logc (Call_GetBlockHeaderBySlot slot) s \<or> s' = s2
     \<or> (\<exists>root. s' = logc (Call_GetBlockBodyByBlockroot root) s2)
     \<or> (\<exists>root b. s' = (logc (Call_GetBlockBodyByBlockroot root) s2)
           \<lparr>cachedBlocks := (cachedBlocks (logc (Call_GetBlockBodyByBlockroot root) s2))(slot \<mapsto> b)\<rparr>)"
    by (auto simp: load_slot_def Let_def split: go_result.splits option.splits if_splits prod.splits)
  then show ?thesis
    using kf lt assms(2,3) by (auto simp: load_frame_def split: if_splits)
qed

lemma load_blocks_spec:
  fixes lastSlot :: u64
  assumes "lastSlot \<noteq> - 1"
  shows "\<exists>r s'. load_blocks env firstSlot lastSlot s = Some (r, s')
            \<and> load_frame firstSlot lastSlot s s'"
proof -
  let ?I = "\<lambda>slot s'. firstSlot \<le> slot \<and> load_frame firstSlot lastSlot s s'"
  let ?Q = "\<lambda>res. load_frame firstSlot lastSlot s (snd res)"
  have "\<exists>res. for_slots (load_slot env) firstSlot lastSlot s = Some res \<and> ?Q res"
  proof (rule for_slots_rule [where I = ?I and Q = ?Q, OF assms])
    show "?I firstSlot s" by (simp add: load_frame_refl)
  next
    fix slot s1 r s2
    assume le: "slot \<le> lastSlot" and inv: "?I slot s1" and b: "load_slot env slot s1 = (r, s2)"
    from load_slot_frame [OF b _ le] inv have "load_frame firstSlot lastSlot s1 s2"
      by simp
    with inv have f: "load_frame firstSlot lastSlot s s2"
      using load_frame_trans by blast
    have "firstSlot \<le> slot + 1"
      using inv word_less_succ [OF le assms, of slot] by (meson less_imp_le order_refl order_trans)
    with f show "case r of None \<Rightarrow> ?I (slot + 1) s2 | Some x \<Rightarrow> ?Q (Some x, s2)"
      by (simp split: option.splits)
  next
    fix slot s1
    assume "?I slot s1"
    then show "?Q (None, s1)" by simp
  qed
  then show ?thesis
    by (auto simp: load_blocks_def)
qed

lemma syncEpoch_process_cases:
  fixes env :: "'db env" and s :: "'db world" and epoch :: u64
  defines "firstSlot \<equiv> epoch * SlotsPerEpoch env"
  defines "lastSlot \<equiv> epoch * SlotsPerEpoch env + SlotsPerEpoch env - 1"
  assumes last: "lastSlot \<noteq> - 1"
  obtains
    (failed) err s' fb rest where
      "syncEpoch_process env epoch stats s = Some (Returns (False, Some err), s')"
      "find_firstBlock (cachedBlocks s) firstSlot lastSlot = Some fb"
      "calls s' = calls s @ Call_aggregateEpochVotes epoch (targetRoot_of fb firstSlot) # rest"
      "\<forall>k. Call_GetBlockHeaderBySlot k \<notin> set rest"
      "running s' = running s" "currentEpoch s' = currentEpoch s"
      "cachedSlot s' = cachedSlot s" "killChan s' = killChan s"
      "cachedBlocks s' = cachedBlocks s" "database s' = database s"
  | (saved) s' fb rest votes tx1 where
      "syncEpoch_process env epoch stats s = Some (Returns (True, None), s')"
      "find_firstBlock (cachedBlocks s) firstSlot lastSlot = Some fb"
      "calls s' = calls s @ Call_aggregateEpochVotes epoch (targetRoot_of fb firstSlot) # rest"
      "\<forall>k. Call_GetBlockHeaderBySlot k \<notin> set rest"
      "running s' = running s" "currentEpoch s' = currentEpoch s"
      "cachedSlot s' = cachedSlot s" "killChan s' = killChan s"
      "cachedBlocks s' = (\<lambda>k. if firstSlot \<le> k \<and> k \<le> lastSlot then None else cachedBlocks s k)"
      "Beginx env = None" "tx_Commit env = None"
      "persistEpochData env epoch (cachedBlocks s) stats votes (database s) = Inr tx1"
      "SetExplorerState env ''indexer.syncstate'' epoch tx1 = Inr (database s')"
proof -
  obtain fb where fb: "find_firstBlock (cachedBlocks s) firstSlot lastSlot = Some fb"
    using find_firstBlock_spec [OF last] by blast
  define tr where "tr = targetRoot_of fb firstSlot"
  define s1 where "s1 = logc (Call_aggregateEpochVotes epoch tr) s"
  define votes where "votes = aggregateEpochVotes env (cachedBlocks s1) epoch stats tr"
  define s2 where "s2 = logc Call_Beginx s1"
  have unfold: "syncEpoch_process env epoch stats s =
      (case Beginx env of
         Some err \<Rightarrow> Some (Returns (False, Some (BeginTxError err)), s2)
       | None \<Rightarrow>
           (case save_epoch env epoch (cachedBlocks s2) stats votes s2 of
              (Some err, s3) \<Rightarrow> Some (Returns (False, Some err), logc Call_Rollback s3)
            | (None, s3) \<Rightarrow>
                (case cleanup_cache (cachedBlocks s3) firstSlot lastSlot of
                   None \<Rightarrow> None
                 | Some cache \<Rightarrow>
                     Some (Returns (True, None),
                           logc Call_Rollback (s3\<lparr>cachedBlocks := cache\<rparr>)))))"
    using fb
    unfolding syncEpoch_process_def Let_def firstSlot_def lastSlot_def
      tr_def s1_def votes_def s2_def
    by simp
  have s2: "running s2 = running s" "currentEpoch s2 = currentEpoch s"
    "cachedSlot s2 = cachedSlot s" "killChan s2 = killChan s"
    "cachedBlocks s2 = cachedBlocks s" "database s2 = database s"
    "calls s2 = calls s @ Call_aggregateEpochVotes epoch tr # [Call_Beginx]"
    by (simp_all add: s2_def s1_def)
  show ?thesis
  proof (cases "Beginx env")
    case (Some err)
    with unfold have "syncEpoch_process env epoch stats s
        = Some (Returns (False, Some (BeginTxError err)), s2)"
      by simp
    then show ?thesis
      using fb s2 by (intro failed [of "BeginTxError err" s2 fb "[Call_Beginx]"]) (simp_all add: tr_def)
  next
    case None
    obtain r s3 where sv: "save_epoch env epoch (cachedBlocks s2) stats votes s2 = (r, s3)"
      by force
    note f = save_epoch_cases [OF sv]
    from f(6) obtain new where new: "calls s3 = calls s2 @ new"
      "\<forall>k. Call_GetBlockHeaderBySlot k \<notin> set new"
      by blast
    show ?thesis
    proof (cases r)
      case (Some err)
      with unfold None sv have "syncEpoch_process env epoch stats s
          = Some (Returns (False, Some err), logc Call_Rollback s3)"
        by simp
      moreover have "calls (logc Call_Rollback s3)
          = calls s @ Call_aggregateEpochVotes epoch (targetRoot_of fb firstSlot)
              # (Call_Beginx # new @ [Call_Rollback])"
        using new s2 by (simp add: tr_def)
      moreover have "\<forall>k. Call_GetBlockHeaderBySlot k \<notin> set (Call_Beginx # new @ [Call_Rollback])"
        using new by simp
      moreover have "database (logc Call_Rollback s3) = database s"
        using f(7) Some s2 by simp
      ultimately show ?thesis
        using fb s2 f(1-5)
        by (intro failed [of err "logc Call_Rollback s3" fb "Call_Beginx # new @ [Call_Rollback]"])
           simp_all
    next
      case r: None
      let ?cache = "\<lambda>k. if firstSlot \<le> k \<and> k \<le> lastSlot then None else cachedBlocks s k"
      let ?s' = "logc Call_Rollback (s3\<lparr>cachedBlocks := ?cache\<rparr>)"
      have "cleanup_cache (cachedBlocks s3) firstSlot lastSlot = Some ?cache"
        using cleanup_cache_spec [OF last] f(4) s2 by simp
      with unfold None sv r have "syncEpoch_process env epoch stats s
          = Some (Returns (True, None), ?s')"
        by simp
      moreover have "calls ?s'
          = calls s @ Call_aggregateEpochVotes epoch (targetRoot_of fb firstSlot)
              # (Call_Beginx # new @ [Call_Rollback])"
        using new s2 by (simp add: tr_def)
      moreover have "\<forall>k. Call_GetBlockHeaderBySlot k \<notin> set (Call_Beginx # new @ [Call_Rollback])"
        using new by simp
      moreover from f(8) [OF r] obtain tx1 where
        "persistEpochData env epoch (cachedBlocks s) stats votes (database s) = Inr tx1"
        "SetExplorerState env ''indexer.syncstate'' epoch tx1 = Inr (database ?s')"
        "tx_Commit env = None"
        using s2 by auto
      ultimately show ?thesis
        using fb s2 f(1-5) None
        by (intro saved [of ?s' fb "Call_Beginx # new @ [Call_Rollback]" votes tx1]) simp_all
    qed
  qed
qed

lemma load_frame_fetch_frame:
  "load_frame firstSlot lastSlot s s' \<Longrightarrow> fetch_frame firstSlot lastSlot s s'"
  by (simp add: load_frame_def fetch_frame_def)

lemma fetch_frame_refl: "fetch_frame firstSlot lastSlot s s"
  by (simp add: fetch_frame_def)

lemma fetch_frame_step:
  assumes f: "fetch_frame firstSlot lastSlot s s1"
    and "running s2 = running s1" "currentEpoch s2 = currentEpoch s1"
    and "database s2 = database s1" "cachedBlocks s2 = cachedBlocks s1"
    and cs: "cachedSlot s2 = cachedSlot s1 \<or> cachedSlot s2 = lastSlot"
    and log: "\<exists>more. calls s2 = calls s1 @ more \<and> (\<forall>k. Call_GetBlockHeaderBySlot k \<notin> set more)"
  shows "fetch_frame firstSlot lastSlot s s2"
proof -
  from f obtain new where new: "calls s1 = calls s @ new"
    "\<forall>k. Call_GetBlockHeaderBySlot k \<in> set new \<longrightarrow>
        firstSlot \<le> k \<and> k \<le> lastSlot \<and> cachedSlot s < k"
    unfolding fetch_frame_def by blast
  from log obtain more where more: "calls s2 = calls s1 @ more"
    "\<forall>k. Call_GetBlockHeaderBySlot k \<notin> set more"
    by blast
  have "calls s2 = calls s @ (new @ more)"
    using new more by simp
  moreover have "\<forall>k. Call_GetBlockHeaderBySlot k \<in> set (new @ more) \<longrightarrow>
      firstSlot \<le> k \<and> k \<le> lastSlot \<and> cachedSlot s < k"
    using new more by auto
  ultimately have "\<exists>new. calls s2 = calls s @ new \<and>
      (\<forall>k. Call_GetBlockHeaderBySlot k \<in> set new \<longrightarrow>
         firstSlot \<le> k \<and> k \<le> lastSlot \<and> cachedSlot s < k)"
    by blast
  moreover have "cachedSlot s2 = cachedSlot s \<or> cachedSlot s2 = lastSlot"
    using f cs unfolding fetch_frame_def by metis
  ultimately show ?thesis
    using f assms(2-5) unfolding fetch_frame_def by simp
qed

lemma syncEpoch_fetch_cases:
  fixes env :: "'db env" and s :: "'db world" and epoch :: u64
  defines "firstSlot \<equiv> epoch * SlotsPerEpoch env"
  defines "lastSlot \<equiv> epoch * SlotsPerEpoch env + (SlotsPerEpoch env * 2) - 1"
  assumes last: "lastSlot \<noteq> - 1"
  obtains
    (stopped) res s' where
      "syncEpoch_fetch env epoch assignments s = Some (res, s')"
      "res \<noteq> Returns (True, None)"
      "fetch_frame firstSlot lastSlot s s'"
  | (process) stats s1 where
      "syncEpoch_fetch env epoch assignments s = syncEpoch_process env epoch stats s1"
      "fetch_frame firstSlot lastSlot s s1"
      "cachedSlot s1 = lastSlot"
proof -
  obtain r s1 where lb: "load_blocks env firstSlot lastSlot s = Some (r, s1)"
    and lf: "load_frame firstSlot lastSlot s s1"
    using load_blocks_spec [OF last] by blast
  from lf have f1: "fetch_frame firstSlot lastSlot s s1"
    by (rule load_frame_fetch_frame)
  show ?thesis
  proof (cases r)
    case (Some res)
    with lb have eq: "syncEpoch_fetch env epoch assignments s = Some (res, s1)"
      unfolding syncEpoch_fetch_def Let_def firstSlot_def lastSlot_def by simp
    have ld: "load_slot env slot s0 = (Some x, s0') \<Longrightarrow> x \<noteq> Returns (True, None)" for slot s0 x s0'
      by (auto simp: load_slot_def Let_def
          split: go_result.splits option.splits if_splits prod.splits)
    have "res \<noteq> Returns (True, None)"
    proof -
      let ?I = "\<lambda>(slot :: u64) (s0 :: 'db world). True"
      let ?Q = "\<lambda>res :: (bool \<times> error option) go_result option \<times> 'db world.
                  fst res \<noteq> Some (Returns (True, None))"
      have "\<exists>res. for_slots (load_slot env) firstSlot lastSlot s = Some res \<and> ?Q res"
        by (rule for_slots_rule [where I = ?I and Q = ?Q, OF last])
           (auto split: option.splits dest: ld)
      with lb Some show ?thesis
        by (auto simp: load_blocks_def)
    qed
    from eq this f1 show ?thesis by (rule stopped)
  next
    case None
    define s2 where "s2 = s1\<lparr>cachedSlot := lastSlot\<rparr>"
    obtain killed s3 where k3: "checkKillChan 0 s2 = (killed, s3)"
      by force
    note kf3 = checkKillChan_fields [OF k3]
    define s4 where "s4 = logc (Call_loadValidatorStats (DependendStateRef assignments)) s3"
    define stats where "stats =
       \<lparr>Epoch = epoch,
        DependentRoot = DependendRoot assignments,
        proposerAssignments = ProposerAssignments assignments,
        attestorAssignments = AttestorAssignments assignments,
        syncAssignments = SyncAssignments assignments,
        validatorStats = loadValidatorStats env (DependendStateRef assignments)\<rparr>"
    obtain killed5 s5 where k5: "checkKillChan 0 s4 = (killed5, s5)"
      by force
    note kf5 = checkKillChan_fields [OF k5]
    have eq: "syncEpoch_fetch env epoch assignments s =
        (if killed then Some (Returns (False, None), s3)
         else if validatorStats stats = None
           then Some (Returns (False, Some (ValidatorStatsError epoch)), s4)
           else if killed5 then Some (Returns (False, None), s5)
           else syncEpoch_process env epoch stats s5)"
      using lb None k3 k5
      unfolding syncEpoch_fetch_def Let_def firstSlot_def lastSlot_def s2_def s4_def stats_def
      by simp
    have f3: "fetch_frame firstSlot lastSlot s s3"
      by (rule fetch_frame_step [OF f1]) (simp_all add: kf3 s2_def)
    have cs3: "cachedSlot s3 = lastSlot"
      using kf3 by (simp add: s2_def)
    have f4: "fetch_frame firstSlot lastSlot s s4"
      by (rule fetch_frame_step [OF f3]) (simp_all add: s4_def)
    have f5: "fetch_frame firstSlot lastSlot s s5"
      by (rule fetch_frame_step [OF f4]) (simp_all add: kf5)
    have cs5: "cachedSlot s5 = lastSlot"
      using kf5 cs3 by (simp add: s4_def)
    consider "killed" | "\<not> killed" "validatorStats stats = None"
      | "\<not> killed" "validatorStats stats \<noteq> None" "killed5"
      | "\<not> killed" "validatorStats stats \<noteq> None" "\<not> killed5"
      by blast
    then show ?thesis
    proof cases
      case 1
      with eq have "syncEpoch_fetch env epoch assignments s = Some (Returns (False, None), s3)"
        by simp
      then show ?thesis using _ f3 by (rule stopped) simp
    next
      case 2
      with eq have "syncEpoch_fetch env epoch assignments s
          = Some (Returns (False, Some (ValidatorStatsError epoch)), s4)"
        by simp
      then show ?thesis using _ f4 by (rule stopped) simp
    next
      case 3
      with eq have "syncEpoch_fetch env epoch assignments s = Some (Returns (False, None), s5)"
        by simp
      then show ?thesis using _ f5 by (rule stopped) simp
    next
      case 4
      with eq have "syncEpoch_fetch env epoch assignments s = syncEpoch_process env epoch stats s5"
        by simp
      then show ?thesis using f5 cs5 by (rule process)
    qed
  qed
qed

lemma fetch_frame_pre:
  assumes f: "fetch_frame firstSlot lastSlot s1 s2"
    and "running s1 = running s" "currentEpoch s1 = currentEpoch s"
    and "database s1 = database s" "cachedBlocks s1 = cachedBlocks s"
    and cs: "cachedSlot s1 = cachedSlot s"
    and log: "\<exists>more. calls s1 = calls s @ more \<and> (\<forall>k. Call_GetBlockHeaderBySlot k \<notin> set more)"
  shows "fetch_frame firstSlot lastSlot s s2"
proof -
  from f obtain new where new: "calls s2 = calls s1 @ new"
    "\<forall>k. Call_GetBlockHeaderBySlot k \<in> set new \<longrightarrow>
        firstSlot \<le> k \<and> k \<le> lastSlot \<and> cachedSlot s1 < k"
    unfolding fetch_frame_def by blast
  from log obtain more where more: "calls s1 = calls s @ more"
    "\<forall>k. Call_GetBlockHeaderBySlot k \<notin> set more"
    by blast
  have "calls s2 = calls s @ (more @ new)"
    using new more by simp
  moreover have "\<forall>k. Call_GetBlockHeaderBySlot k \<in> set (more @ new) \<longrightarrow>
      firstSlot \<le> k \<and> k \<le> lastSlot \<and> cachedSlot s < k"
    using new more cs by auto
  ultimately have "\<exists>new. calls s2 = calls s @ new \<and>
      (\<forall>k. Call_GetBlockHeaderBySlot k \<in> set new \<longrightarrow>
         firstSlot \<le> k \<and> k \<le> lastSlot \<and> cachedSlot s < k)"
    by blast
  then show ?thesis
    using f assms(2-6) unfolding fetch_frame_def by simp
qed

lemma syncEpoch_cases:
  fixes env :: "'db env" and s :: "'db world" and epoch :: u64
  defines "firstSlot \<equiv> epoch * SlotsPerEpoch env"
  defines "lastSlot \<equiv> epoch * SlotsPerEpoch env + (SlotsPerEpoch env * 2) - 1"
  assumes last: "lastSlot \<noteq> - 1"
    and ns: "\<not> IsEpochSynchronized env (database s) epoch"
  obtains
    (stopped) res s' where
      "syncEpoch env epoch s = Some (res, s')"
      "res \<noteq> Returns (True, None)"
      "fetch_frame firstSlot lastSlot s s'"
  | (process) stats s1 where
      "syncEpoch env epoch s = syncEpoch_process env epoch stats s1"
      "fetch_frame firstSlot lastSlot s s1"
      "cachedSlot s1 = lastSlot"
proof -
  define s1 where "s1 = logc (Call_GetEpochAssignments epoch) s"
  obtain killed s2 where k: "checkKillChan 0 s1 = (killed, s2)"
    by force
  note kf = checkKillChan_fields [OF k]
  have f1: "fetch_frame firstSlot lastSlot s s1"
    by (rule fetch_frame_step [OF fetch_frame_refl]) (simp_all add: s1_def)
  have f2: "fetch_frame firstSlot lastSlot s s2"
    by (rule fetch_frame_step [OF f1]) (simp_all add: kf)
  have pre: "fetch_frame firstSlot lastSlot s x" if "fetch_frame firstSlot lastSlot s2 x" for x
    using that by (rule fetch_frame_pre) (simp_all add: kf s1_def)
  have eq: "syncEpoch env epoch s =
      (case GetEpochAssignments env epoch of
         Panics \<Rightarrow> Some (Panics, s1)
       | Returns (epochAssignments, err) \<Rightarrow>
           (case epochAssignments of
              None \<Rightarrow> Some (Returns (False, err), s1)
            | Some assignments \<Rightarrow>
                if err \<noteq> None then Some (Returns (False, err), s1)
                else if killed then Some (Returns (False, None), s2)
                else syncEpoch_fetch env epoch assignments s2))"
    using ns k unfolding syncEpoch_def Let_def s1_def
    by (simp split: go_result.splits option.splits prod.splits)
  show ?thesis
  proof (cases "GetEpochAssignments env epoch")
    case Panics
    with eq have "syncEpoch env epoch s = Some (Panics, s1)" by simp
    then show ?thesis using _ f1 by (rule stopped) simp
  next
    case (Returns p)
    obtain a err where p: "p = (a, err)" by force
    show ?thesis
    proof (cases a)
      case None
      with eq Returns p have "syncEpoch env epoch s = Some (Returns (False, err), s1)" by simp
      then show ?thesis using _ f1 by (rule stopped) simp
    next
      case (Some assignments)
      consider "err \<noteq> None" | "err = None" "killed" | "err = None" "\<not> killed"
        by blast
      then show ?thesis
      proof cases
        case 1
        with eq Returns p Some have "syncEpoch env epoch s = Some (Returns (False, err), s1)"
          by simp
        then show ?thesis using _ f1 by (rule stopped) simp
      next
        case 2
        with eq Returns p Some have "syncEpoch env epoch s = Some (Returns (False, None), s2)"
          by simp
        then show ?thesis using _ f2 by (rule stopped) simp
      next
        case 3
        with eq Returns p Some
        have e3: "syncEpoch env epoch s = syncEpoch_fetch env epoch assignments s2"
          by simp
        show ?thesis
        proof (rule syncEpoch_fetch_cases [of epoch env assignments s2, OF last [unfolded lastSlot_def]])
          fix res s'
          assume "syncEpoch_fetch env epoch assignments s2 = Some (res, s')"
            "res \<noteq> Returns (True, None)"
            "fetch_frame (epoch * SlotsPerEpoch env)
               (epoch * SlotsPerEpoch env + SlotsPerEpoch env * 2 - 1) s2 s'"
          then show thesis
            using e3 pre by (intro stopped [of res s']) (simp_all add: firstSlot_def lastSlot_def)
        next
          fix stats s3
          assume "syncEpoch_fetch env epoch assignments s2 = syncEpoch_process env epoch stats s3"
            "fetch_frame (epoch * SlotsPerEpoch env)
               (epoch * SlotsPerEpoch env + SlotsPerEpoch env * 2 - 1) s2 s3"
            "cachedSlot s3 = epoch * SlotsPerEpoch env + SlotsPerEpoch env * 2 - 1"
          then show thesis
            using e3 pre by (intro process [of stats s3]) (simp_all add: firstSlot_def lastSlot_def)
        qed
      qed
    qed
  qed
qed

lemma word_pred_max: "(x :: u64) - 1 = - 1 \<longleftrightarrow> x = 0"
  by simp

lemma word_of_nat_nonzero:
  assumes "0 < n" "n < 2 ^ 64"
  shows "(word_of_nat n :: u64) \<noteq> 0"
  using assms by (simp add: word_of_nat_eq_0_iff nat_dvd_not_less)

lemma word_of_nat_sum2: "(epoch :: u64) * spe + spe * 2 = word_of_nat ((unat epoch + 2) * unat spe)"
  by (simp add: distrib_right)

lemma word_of_nat_sum1: "(epoch :: u64) * spe + spe = word_of_nat ((unat epoch + 1) * unat spe)"
  by (simp add: distrib_right)

lemma no_overflow_loops_end:
  assumes pos: "0 < unat (SlotsPerEpoch env)"
    and fit: "(unat epoch + 2) * unat (SlotsPerEpoch env) < 2 ^ 64"
  shows "loops_end env epoch"
proof -
  let ?n = "unat (SlotsPerEpoch env)"
  have "(unat epoch + 1) * ?n \<le> (unat epoch + 2) * ?n"
    by (rule mult_le_mono1) simp
  then have lt1: "(unat epoch + 1) * ?n < 2 ^ 64"
    using fit by (rule le_less_trans)
  have p2: "0 < (unat epoch + 2) * ?n" and p1: "0 < (unat epoch + 1) * ?n"
    using pos by simp_all
  have "epoch * SlotsPerEpoch env + SlotsPerEpoch env * 2 \<noteq> 0"
    unfolding word_of_nat_sum2 using p2 fit by (rule word_of_nat_nonzero)
  moreover have "epoch * SlotsPerEpoch env + SlotsPerEpoch env \<noteq> 0"
    unfolding word_of_nat_sum1 using p1 lt1 by (rule word_of_nat_nonzero)
  ultimately show ?thesis
    unfolding loops_end_def word_pred_max by simp
qed


lemma fetch_frameD:
  assumes "fetch_frame firstSlot lastSlot s s'"
  shows "running s' = running s" "currentEpoch s' = currentEpoch s" "database s' = database s"
    "cachedSlot s' = cachedSlot s \<or> cachedSlot s' = lastSlot"
    "\<And>k. cachedBlocks s' k \<noteq> cachedBlocks s k \<Longrightarrow> firstSlot \<le> k \<and> k \<le> lastSlot \<and> cachedSlot s < k"
    "\<exists>new. calls s' = calls s @ new \<and>
          (\<forall>k. Call_GetBlockHeaderBySlot k \<in> set new \<longrightarrow>
               firstSlot \<le> k \<and> k \<le> lastSlot \<and> cachedSlot s < k)"
  using assms unfolding fetch_frame_def by blast+


lemma find_firstBlock_targetRoot:
  fixes lastSlot :: u64
  assumes "find_firstBlock cache firstSlot lastSlot = Some fb" "lastSlot \<noteq> - 1"
  shows "spec_targetRoot cache firstSlot lastSlot (targetRoot_of fb firstSlot)"
proof -
  from find_firstBlock_spec [OF assms(2), of cache firstSlot] assms(1)
  have spec: "case fb of
      None \<Rightarrow> \<forall>k. firstSlot \<le> k \<and> k \<le> lastSlot \<longrightarrow> cache k = None
    | Some b \<Rightarrow> \<exists>slot. firstSlot \<le> slot \<and> slot \<le> lastSlot \<and> cache slot = Some b \<and>
         (\<forall>k. firstSlot \<le> k \<and> k < slot \<longrightarrow> cache k = None)"
    by auto
  show ?thesis
  proof (cases fb)
    case None
    with spec have empty: "\<forall>k. firstSlot \<le> k \<and> k \<le> lastSlot \<longrightarrow> cache k = None"
      by simp
    have "targetRoot_of fb firstSlot = []"
      using None by (simp add: targetRoot_of_def)
    with empty show ?thesis
      unfolding spec_targetRoot_def by fastforce
  next
    case (Some b)
    with spec obtain slot where slot: "firstSlot \<le> slot" "slot \<le> lastSlot" "cache slot = Some b"
      "\<forall>k. firstSlot \<le> k \<and> k < slot \<longrightarrow> cache k = None"
      by auto
    have uniq: "b' = b"
      if "firstSlot \<le> slot'" "slot' \<le> lastSlot" "cache slot' = Some b'"
        "\<forall>k. firstSlot \<le> k \<and> k < slot' \<longrightarrow> cache k = None" for slot' b'
    proof -
      have "\<not> slot' < slot" using slot(4) that(1,3) by auto
      moreover have "\<not> slot < slot'" using that(4) slot(1,3) by auto
      ultimately have "slot' = slot" by simp
      with that(3) slot(3) show ?thesis by simp
    qed
    have "\<not> (\<forall>k. firstSlot \<le> k \<and> k \<le> lastSlot \<longrightarrow> cache k = None)"
      using slot by auto
    with Some uniq show ?thesis
      unfolding spec_targetRoot_def targetRoot_of_def by auto
  qed
qed

lemma word_above_bound:
  fixes k :: u64
  assumes "lastSlot \<noteq> - 1" "lastSlot + 1 \<le> k"
  shows "\<not> k \<le> lastSlot"
proof -
  have "unat (lastSlot + 1) = Suc (unat lastSlot)"
    using order_refl assms(1) by (rule word_succ_unat)
  with assms(2) show ?thesis
    by (simp add: word_le_nat_alt)
qed

lemma word_not_le_bound:
  fixes k :: u64
  assumes "lastSlot \<noteq> - 1" "\<not> k \<le> lastSlot"
  shows "lastSlot + 1 \<le> k"
proof -
  have "unat (lastSlot + 1) = Suc (unat lastSlot)"
    using order_refl assms(1) by (rule word_succ_unat)
  with assms(2) show ?thesis
    by (simp add: word_le_nat_alt)
qed

section \<open>What holds whenever the epoch step returns\<close>

lemma for_slots_partial:
  assumes run: "for_slots body slot lastSlot s = Some res"
    and inv: "I s"
    and step: "\<And>slot s r s'. I s \<Longrightarrow> body slot s = (r, s')
                 \<Longrightarrow> (case r of None \<Rightarrow> I s' | Some x \<Rightarrow> Q (Some x, s'))"
    and fin: "\<And>s. I s \<Longrightarrow> Q (None, s)"
  shows "Q res"
proof -
  have "b = body \<longrightarrow> I s \<longrightarrow> Q res"
    if r: "for_slots b slot lastSlot s = Some res" for b
  proof (rule for_slots.raw_induct
      [where P = "\<lambda>b slot lastSlot s res. b = body \<longrightarrow> I s \<longrightarrow> Q res", OF _ r])
    fix f body' slot lastSlot s res
    assume IH: "\<And>b slot lastSlot s res.
        f b slot lastSlot s = Some res \<Longrightarrow> b = body \<longrightarrow> I s \<longrightarrow> Q res"
      and eq: "(if slot \<le> lastSlot
                then case body' slot s of
                       (None, s') \<Rightarrow> f body' (slot + 1) lastSlot s'
                     | (Some r, s') \<Rightarrow> Some (Some r, s')
                else Some (None, s)) = Some res"
    show "body' = body \<longrightarrow> I s \<longrightarrow> Q res"
    proof (intro impI)
      assume b: "body' = body" and i: "I s"
      show "Q res"
      proof (cases "slot \<le> lastSlot")
        case False
        with eq fin [OF i] show ?thesis by simp
      next
        case True
        obtain r s' where bs: "body slot s = (r, s')" by force
        show ?thesis
        proof (cases r)
          case None
          with step [OF i bs] have i': "I s'" by simp
          from eq True b bs None have "f body (slot + 1) lastSlot s' = Some res"
            by simp
          from IH [OF this] i' show ?thesis by simp
        next
          case (Some x)
          with step [OF i bs] have "Q (Some x, s')" by simp
          with eq True b bs Some show ?thesis by auto
        qed
      qed
    qed
  qed
  with run inv show ?thesis by simp
qed

lemma for_slots_max:
  assumes "for_slots body slot lastSlot s = Some res" "lastSlot = - 1"
  shows "fst res \<noteq> None"
proof -
  have "lastSlot = - 1 \<longrightarrow> fst res \<noteq> None"
  proof (rule for_slots.raw_induct
      [where P = "\<lambda>b slot lastSlot s res. lastSlot = - 1 \<longrightarrow> fst res \<noteq> None", OF _ assms(1)])
    fix f body slot and lastSlot :: u64 and s res
    assume IH: "\<And>b slot lastSlot s res.
        f b slot lastSlot s = Some res \<Longrightarrow> lastSlot = - 1 \<longrightarrow> fst res \<noteq> None"
      and eq: "(if slot \<le> lastSlot
                then case body slot s of
                       (None, s') \<Rightarrow> f body (slot + 1) lastSlot s'
                     | (Some r, s') \<Rightarrow> Some (Some r, s')
                else Some (None, s)) = Some res"
    show "lastSlot = - 1 \<longrightarrow> fst res \<noteq> None"
    proof (intro impI)
      assume m: "lastSlot = - 1"
      then have le: "slot \<le> lastSlot" by simp
      obtain r s' where bs: "body slot s = (r, s')" by force
      show "fst res \<noteq> None"
      proof (cases r)
        case None
        with eq le bs have "f body (slot + 1) lastSlot s' = Some res"
          by simp
        from IH [OF this] m show ?thesis by simp
      next
        case (Some x)
        with eq le bs show ?thesis by auto
      qed
    qed
  qed
  with assms(2) show ?thesis by simp
qed

lemma load_blocks_partial:
  assumes "load_blocks env firstSlot lastSlot s = Some (r, s')"
  shows "load_frame 0 (- 1) s s'"
proof -
  let ?I = "\<lambda>s1. load_frame 0 (- 1) s s1"
  let ?Q = "\<lambda>res. load_frame 0 (- 1) s (snd res)"
  from assms have run: "for_slots (load_slot env) firstSlot lastSlot s = Some (r, s')"
    by (simp add: load_blocks_def)
  have "?Q (r, s')"
  proof (rule for_slots_partial [where I = ?I and Q = ?Q, OF run])
    show "?I s" by (rule load_frame_refl)
  next
    fix slot s1 r1 s2
    assume inv: "?I s1" and b: "load_slot env slot s1 = (r1, s2)"
    have "load_frame 0 (- 1) s1 s2"
      using b by (rule load_slot_frame) simp_all
    with inv have "load_frame 0 (- 1) s s2"
      by (rule load_frame_trans)
    then show "case r1 of None \<Rightarrow> ?I s2 | Some x \<Rightarrow> ?Q (Some x, s2)"
      by (simp split: option.splits)
  next
    fix s1 assume "?I s1"
    then show "?Q (None, s1)" by simp
  qed
  then show ?thesis by simp
qed

lemma load_blocks_not_done:
  assumes "load_blocks env firstSlot lastSlot s = Some (Some res, s')"
  shows "res \<noteq> Returns (True, None)"
proof -
  let ?I = "\<lambda>s0 :: 'a world. True"
  let ?Q = "\<lambda>res :: (bool \<times> error option) go_result option \<times> 'a world.
              fst res \<noteq> Some (Returns (True, None))"
  have ld: "load_slot env slot s0 = (Some x, s0') \<Longrightarrow> x \<noteq> Returns (True, None)" for slot s0 x s0'
    by (auto simp: load_slot_def Let_def
        split: go_result.splits option.splits if_splits prod.splits)
  from assms have run: "for_slots (load_slot env) firstSlot lastSlot s = Some (Some res, s')"
    by (simp add: load_blocks_def)
  have "?Q (Some res, s')"
    by (rule for_slots_partial [where I = ?I and Q = ?Q, OF run])
       (auto split: option.splits dest: ld)
  then show ?thesis by simp
qed

lemma syncEpoch_process_db:
  assumes "syncEpoch_process env epoch stats s = Some (res, s')"
  shows "res \<noteq> Returns (True, None) \<Longrightarrow> database s' = database s"
    and "res = Returns (True, None) \<Longrightarrow>
           Beginx env = None \<and> tx_Commit env = None \<and>
           (\<exists>votes tx1.
              persistEpochData env epoch (cachedBlocks s) stats votes (database s) = Inr tx1 \<and>
              SetExplorerState env ''indexer.syncstate'' epoch tx1 = Inr (database s'))"
proof -
  let ?first = "epoch * SlotsPerEpoch env"
  let ?last = "epoch * SlotsPerEpoch env + SlotsPerEpoch env - 1"
  from assms obtain fb where fb: "find_firstBlock (cachedBlocks s) ?first ?last = Some fb"
    by (auto simp: syncEpoch_process_def Let_def split: option.splits)
  define tr where "tr = targetRoot_of fb ?first"
  define s1 where "s1 = logc (Call_aggregateEpochVotes epoch tr) s"
  define votes where "votes = aggregateEpochVotes env (cachedBlocks s1) epoch stats tr"
  define s2 where "s2 = logc Call_Beginx s1"
  have unfold: "syncEpoch_process env epoch stats s =
      (case Beginx env of
         Some err \<Rightarrow> Some (Returns (False, Some (BeginTxError err)), s2)
       | None \<Rightarrow>
           (case save_epoch env epoch (cachedBlocks s2) stats votes s2 of
              (Some err, s3) \<Rightarrow> Some (Returns (False, Some err), logc Call_Rollback s3)
            | (None, s3) \<Rightarrow>
                (case cleanup_cache (cachedBlocks s3) ?first ?last of
                   None \<Rightarrow> None
                 | Some cache \<Rightarrow>
                     Some (Returns (True, None),
                           logc Call_Rollback (s3\<lparr>cachedBlocks := cache\<rparr>)))))"
    using fb
    unfolding syncEpoch_process_def Let_def tr_def s1_def votes_def s2_def
    by simp
  have s2: "cachedBlocks s2 = cachedBlocks s" "database s2 = database s"
    by (simp_all add: s2_def s1_def)
  obtain r s3 where sv: "save_epoch env epoch (cachedBlocks s2) stats votes s2 = (r, s3)"
    by force
  note f = save_epoch_cases [OF sv]
  show "database s' = database s" if "res \<noteq> Returns (True, None)"
    using assms that unfold sv f(7) s2
    by (auto split: option.splits)
  show "Beginx env = None \<and> tx_Commit env = None \<and>
           (\<exists>votes tx1.
              persistEpochData env epoch (cachedBlocks s) stats votes (database s) = Inr tx1 \<and>
              SetExplorerState env ''indexer.syncstate'' epoch tx1 = Inr (database s'))"
    if "res = Returns (True, None)"
  proof -
    from assms that unfold sv have b: "Beginx env = None" and r: "r = None"
      and s': "\<exists>cache. s' = logc Call_Rollback (s3\<lparr>cachedBlocks := cache\<rparr>)"
      by (auto split: option.splits)
    from f(8) [OF r] s2 obtain tx1 where
      "persistEpochData env epoch (cachedBlocks s) stats votes (database s) = Inr tx1"
      "SetExplorerState env ''indexer.syncstate'' epoch tx1 = Inr (database s3)"
      "tx_Commit env = None"
      by auto
    moreover from s' have "database s' = database s3" by auto
    ultimately show ?thesis
      using b by (intro conjI exI [of _ votes] exI [of _ tx1]) simp_all
  qed
qed

lemma storage_effect_same:
  "res \<noteq> Returns (True, None) \<Longrightarrow> database s' = database s \<Longrightarrow> storage_effect env epoch s res s'"
  by (simp add: storage_effect_def)

lemma storage_effect_pre:
  "storage_effect env epoch s1 res s' \<Longrightarrow> database s1 = database s
     \<Longrightarrow> storage_effect env epoch s res s'"
  unfolding storage_effect_def by (auto split: if_splits)

lemma syncEpoch_process_storage:
  assumes "syncEpoch_process env epoch stats s = Some (res, s')"
  shows "storage_effect env epoch s res s'"
  using syncEpoch_process_db [OF assms] unfolding storage_effect_def by auto

lemma cleanup_cache_bound:
  assumes "cleanup_cache cache firstSlot lastSlot = Some cache'"
  shows "lastSlot \<noteq> - 1"
proof
  assume m: "lastSlot = - 1"
  from assms obtain r where run: "for_slots evict_slot firstSlot lastSlot cache = Some (r, cache')"
    by (auto simp: cleanup_cache_def)
  let ?I = "\<lambda>c :: u64 \<rightharpoonup> CacheBlock. True"
  let ?Q = "\<lambda>res :: unit option \<times> (u64 \<rightharpoonup> CacheBlock). fst res = None"
  have "?Q (r, cache')"
    by (rule for_slots_partial [where I = ?I and Q = ?Q, OF run])
       (auto simp: evict_slot_def split: option.splits)
  with for_slots_max [OF run m] show False by simp
qed

lemma syncEpoch_process_done_bound:
  assumes "syncEpoch_process env epoch stats s = Some (Returns (True, None), s')"
  shows "epoch * SlotsPerEpoch env + SlotsPerEpoch env - 1 \<noteq> - 1"
proof -
  from assms obtain cache cache' where
    "cleanup_cache cache (epoch * SlotsPerEpoch env)
       (epoch * SlotsPerEpoch env + SlotsPerEpoch env - 1) = Some cache'"
    by (auto simp: syncEpoch_process_def Let_def split: option.splits prod.splits)
  then show ?thesis by (rule cleanup_cache_bound)
qed

lemma syncEpoch_fetch_partial:
  assumes run: "syncEpoch_fetch env epoch assignments s = Some (res, s')"
  shows "storage_effect env epoch s res s'"
    and "res = Returns (True, None) \<Longrightarrow> loops_end env epoch"
proof -
  let ?first = "epoch * SlotsPerEpoch env"
  let ?last = "epoch * SlotsPerEpoch env + (SlotsPerEpoch env * 2) - 1"
  from run obtain r s1 where lb: "load_blocks env ?first ?last s = Some (r, s1)"
    by (auto simp: syncEpoch_fetch_def Let_def split: option.splits)
  from load_blocks_partial [OF lb] have db1: "database s1 = database s"
    by (simp add: load_frame_def)
  have "storage_effect env epoch s res s' \<and> (res = Returns (True, None) \<longrightarrow> loops_end env epoch)"
  proof (cases r)
    case (Some x)
    with lb run have eq: "res = x" "s' = s1"
      by (simp_all add: syncEpoch_fetch_def Let_def)
    from lb Some have "x \<noteq> Returns (True, None)"
      using load_blocks_not_done by blast
    with eq db1 show ?thesis
      by (simp add: storage_effect_same)
  next
    case None
    have l2: "?last \<noteq> - 1"
    proof
      assume "?last = - 1"
      with lb None for_slots_max [of "load_slot env" ?first ?last s "(None, s1)"]
      show False by (simp add: load_blocks_def)
    qed
    define s2 where "s2 = s1\<lparr>cachedSlot := ?last\<rparr>"
    obtain killed s3 where k3: "checkKillChan 0 s2 = (killed, s3)"
      by force
    note kf3 = checkKillChan_fields [OF k3]
    define s4 where "s4 = logc (Call_loadValidatorStats (DependendStateRef assignments)) s3"
    define stats where "stats =
       \<lparr>Epoch = epoch,
        DependentRoot = DependendRoot assignments,
        proposerAssignments = ProposerAssignments assignments,
        attestorAssignments = AttestorAssignments assignments,
        syncAssignments = SyncAssignments assignments,
        validatorStats = loadValidatorStats env (DependendStateRef assignments)\<rparr>"
    obtain killed5 s5 where k5: "checkKillChan 0 s4 = (killed5, s5)"
      by force
    note kf5 = checkKillChan_fields [OF k5]
    have eq: "syncEpoch_fetch env epoch assignments s =
        (if killed then Some (Returns (False, None), s3)
         else if validatorStats stats = None
           then Some (Returns (False, Some (ValidatorStatsError epoch)), s4)
           else if killed5 then Some (Returns (False, None), s5)
           else syncEpoch_process env epoch stats s5)"
      using lb None k3 k5
      unfolding syncEpoch_fetch_def Let_def s2_def s4_def stats_def
      by simp
    have db3: "database s3 = database s" using kf3 db1 by (simp add: s2_def)
    have db4: "database s4 = database s" using db3 by (simp add: s4_def)
    have db5: "database s5 = database s" using kf5 db4 by simp
    consider "killed" | "\<not> killed" "validatorStats stats = None"
      | "\<not> killed" "validatorStats stats \<noteq> None" "killed5"
      | "\<not> killed" "validatorStats stats \<noteq> None" "\<not> killed5"
      by blast
    then show ?thesis
    proof cases
      case 1
      with eq run db3 show ?thesis by (auto simp: storage_effect_same)
    next
      case 2
      with eq run db4 show ?thesis by (auto simp: storage_effect_same)
    next
      case 3
      with eq run db5 show ?thesis by (auto simp: storage_effect_same)
    next
      case 4
      with eq run have p: "syncEpoch_process env epoch stats s5 = Some (res, s')"
        by simp
      from syncEpoch_process_storage [OF p] db5 have "storage_effect env epoch s res s'"
        by (rule storage_effect_pre)
      moreover have "loops_end env epoch" if "res = Returns (True, None)"
        using syncEpoch_process_done_bound [of env epoch stats s5 s'] p that l2
        by (simp add: loops_end_def)
      ultimately show ?thesis by simp
    qed
  qed
  then show "storage_effect env epoch s res s'"
    and "res = Returns (True, None) \<Longrightarrow> loops_end env epoch"
    by simp_all
qed

lemma syncEpoch_partial:
  assumes run: "syncEpoch env epoch s = Some (res, s')"
  shows "IsEpochSynchronized env (database s) epoch \<or> storage_effect env epoch s res s'"
    and "res = Returns (True, None) \<Longrightarrow> \<not> IsEpochSynchronized env (database s) epoch
           \<Longrightarrow> loops_end env epoch"
    and "database s' \<noteq> database s \<Longrightarrow> storage_effect env epoch s res s' \<and> res = Returns (True, None)"
proof -
  have main: "storage_effect env epoch s res s' \<and> (res = Returns (True, None) \<longrightarrow> loops_end env epoch)"
    if ns: "\<not> IsEpochSynchronized env (database s) epoch"
  proof -
    define s1 where "s1 = logc (Call_GetEpochAssignments epoch) s"
    obtain killed s2 where k: "checkKillChan 0 s1 = (killed, s2)"
      by force
    note kf = checkKillChan_fields [OF k]
    have db1: "database s1 = database s" by (simp add: s1_def)
    have db2: "database s2 = database s" using kf db1 by simp
    have eq: "syncEpoch env epoch s =
        (case GetEpochAssignments env epoch of
           Panics \<Rightarrow> Some (Panics, s1)
         | Returns (epochAssignments, err) \<Rightarrow>
             (case epochAssignments of
                None \<Rightarrow> Some (Returns (False, err), s1)
              | Some assignments \<Rightarrow>
                  if err \<noteq> None then Some (Returns (False, err), s1)
                  else if killed then Some (Returns (False, None), s2)
                  else syncEpoch_fetch env epoch assignments s2))"
      using ns k unfolding syncEpoch_def Let_def s1_def
      by (simp split: go_result.splits option.splits prod.splits)
    show ?thesis
    proof (cases "GetEpochAssignments env epoch")
      case Panics
      with eq run db1 show ?thesis by (auto simp: storage_effect_same)
    next
      case (Returns p)
      obtain a err where p: "p = (a, err)" by force
      show ?thesis
      proof (cases a)
        case None
        with eq run Returns p db1 show ?thesis by (auto simp: storage_effect_same)
      next
        case (Some assignments)
        consider "err \<noteq> None" | "err = None" "killed" | "err = None" "\<not> killed"
          by blast
        then show ?thesis
        proof cases
          case 1
          with eq run Returns p Some db1 show ?thesis by (auto simp: storage_effect_same)
        next
          case 2
          with eq run Returns p Some db2 show ?thesis by (auto simp: storage_effect_same)
        next
          case 3
          with eq run Returns p Some
          have f: "syncEpoch_fetch env epoch assignments s2 = Some (res, s')"
            by simp
          from syncEpoch_fetch_partial(1) [OF f] db2 have "storage_effect env epoch s res s'"
            by (rule storage_effect_pre)
          with syncEpoch_fetch_partial(2) [OF f] show ?thesis by simp
        qed
      qed
    qed
  qed
  have skip: "res = Returns (True, None) \<and> s' = s" if "IsEpochSynchronized env (database s) epoch"
    using that run by (simp add: syncEpoch_def)
  show "IsEpochSynchronized env (database s) epoch \<or> storage_effect env epoch s res s'"
    using main by blast
  show "loops_end env epoch"
    if "res = Returns (True, None)" "\<not> IsEpochSynchronized env (database s) epoch"
    using main that by blast
  show "storage_effect env epoch s res s' \<and> res = Returns (True, None)"
    if "database s' \<noteq> database s"
  proof -
    from that skip have ns: "\<not> IsEpochSynchronized env (database s) epoch" by auto
    from main [OF ns] that show ?thesis
      by (auto simp: storage_effect_def split: if_splits)
  qed
qed

lemma syncEpoch_returns:
  assumes le: "loops_end env epoch"
  shows "\<exists>res s'. syncEpoch env epoch s = Some (res, s')"
proof (cases "IsEpochSynchronized env (database s) epoch")
  case True
  then show ?thesis by (simp add: syncEpoch_def)
next
  case False
  from le have l2: "epoch * SlotsPerEpoch env + (SlotsPerEpoch env * 2) - 1 \<noteq> - 1"
    and l1: "epoch * SlotsPerEpoch env + SlotsPerEpoch env - 1 \<noteq> - 1"
    by (simp_all add: loops_end_def)
  from l2 False show ?thesis
  proof (cases rule: syncEpoch_cases)
    case (stopped res s')
    then show ?thesis by blast
  next
    case (process stats s1)
    from l1 show ?thesis
    proof (cases rule: syncEpoch_process_cases [of epoch env stats s1])
      case (failed err s' fb rest)
      with process(1) show ?thesis by simp
    next
      case (saved s' fb rest votes tx1)
      with process(1) show ?thesis by simp
    qed
  qed
qed

section \<open>The epoch query\<close>

text \<open>
  C1 (as the code has it): \<^verbatim>\<open>isEpochAhead\<close> answers true exactly when a worker is running
  and the worker's current epoch is below the given epoch, so the given epoch is still
  ahead of the worker. With no worker running the answer is false.
\<close>

theorem isEpochAhead_iff:
  "isEpochAhead sync epoch = (running sync \<and> currentEpoch sync < epoch)"
  by (simp add: isEpochAhead_def)

text \<open>
  C1 as the spec words it (true iff running and the current epoch exceeds the given one)
  fails for a running worker at epoch 5 asked about epoch 3.
\<close>

theorem isEpochAhead_exceeds_counterexample:
  "\<not> (isEpochAhead \<lparr>running = True, currentEpoch = 5, cachedSlot = 0, cachedBlocks = Map.empty\<rparr> 3
        = (running \<lparr>running = True, currentEpoch = 5, cachedSlot = 0, cachedBlocks = Map.empty\<rparr>
           \<and> 3 < currentEpoch \<lparr>running = True, currentEpoch = 5, cachedSlot = 0, cachedBlocks = Map.empty\<rparr>))"
  by (simp add: isEpochAhead_def)

section \<open>The slot page handler: the not-found branch\<close>

lemma is_hex_char_code:
  "is_hex_char c \<longleftrightarrow>
     (48 \<le> (of_char c :: int) \<and> (of_char c :: int) \<le> 57) \<or>
     (97 \<le> (of_char c :: int) \<and> (of_char c :: int) \<le> 102) \<or>
     (65 \<le> (of_char c :: int) \<and> (of_char c :: int) \<le> 70)"
proof (cases c)
  case (Char b0 b1 b2 b3 b4 b5 b6 b7)
  then show ?thesis
    by (cases b0; cases b1; cases b2; cases b3; cases b4; cases b5; cases b6; cases b7)
       (simp_all add: is_hex_char_def)
qed

lemma fromHexChar_Some_iff: "fromHexChar c \<noteq> None \<longleftrightarrow> is_hex_char c"
  unfolding is_hex_char_code by (auto simp: fromHexChar_def Let_def)

lemma hex_DecodeString_chars:
  "hex_DecodeString s = Some bs \<Longrightarrow> list_all is_hex_char s"
proof (induction s arbitrary: bs rule: hex_DecodeString.induct)
  case 1
  then show ?case by simp
next
  case (2 p)
  then show ?case by simp
next
  case (3 p q src)
  then show ?case
    by (auto simp: fromHexChar_Some_iff [symmetric] split: option.splits)
qed

text \<open>
  C10: when the parameter, with every \<^verbatim>\<open>0x\<close> removed, is not a block root of 64
  hexadecimal characters, and the parameter does not parse as a decimal \<^verbatim>\<open>int64\<close> or
  parses to 2147483648 or more, the handler renders the not-found page; it never reaches
  the lookup in the beacon service.
\<close>

theorem Slot_not_found:
  assumes "\<not> is_block_root_hex (strings_Replace_0x param)"
    and "strconv_ParseInt param = None
         \<or> (\<exists>v. strconv_ParseInt param = Some v \<and> 2147483648 \<le> v)"
  shows "Slot_handler param = RenderNotFound (''Slot '' @ strings_Replace_0x param)"
proof -
  have num: "Slot_by_number param (strings_Replace_0x param)
               = RenderNotFound (''Slot '' @ strings_Replace_0x param)"
    using assms(2) by (auto simp: Slot_by_number_def)
  show ?thesis
  proof (cases "hex_DecodeString (strings_Replace_0x param)")
    case None
    then show ?thesis by (simp add: Slot_handler_def num)
  next
    case (Some blockRootHash)
    then have "list_all is_hex_char (strings_Replace_0x param)"
      by (rule hex_DecodeString_chars)
    with assms(1) have "length (strings_Replace_0x param) \<noteq> 64"
      by (simp add: is_block_root_hex_def)
    with Some show ?thesis by (simp add: Slot_handler_def num)
  qed
qed

theorem Slot_not_found_witness:
  "\<not> is_block_root_hex (strings_Replace_0x ''2147483648'')
   \<and> strconv_ParseInt ''2147483648'' = Some 2147483648
   \<and> Slot_handler ''2147483648'' = RenderNotFound ''Slot 2147483648''
   \<and> \<not> is_block_root_hex (strings_Replace_0x ''0x12'')
   \<and> strconv_ParseInt ''0x12'' = None
   \<and> Slot_handler ''0x12'' = RenderNotFound ''Slot 12''"
proof -
  have a: "\<not> is_block_root_hex (strings_Replace_0x ''2147483648'')"
    by (simp add: is_block_root_hex_def)
  have b: "strconv_ParseInt ''2147483648'' = Some 2147483648"
    by (simp add: strconv_ParseInt_def strconv_ParseUint_def)
  have c: "\<not> is_block_root_hex (strings_Replace_0x ''0x12'')"
    by (simp add: is_block_root_hex_def)
  have d: "strconv_ParseInt ''0x12'' = None"
    by (simp add: strconv_ParseInt_def strconv_ParseUint_def)
  from Slot_not_found [of "''2147483648''"] a b
  have e: "Slot_handler ''2147483648''
             = RenderNotFound (''Slot '' @ strings_Replace_0x ''2147483648'')"
    by simp
  from Slot_not_found [of "''0x12''"] c d
  have f: "Slot_handler ''0x12'' = RenderNotFound (''Slot '' @ strings_Replace_0x ''0x12'')"
    by simp
  from a b c d e f show ?thesis by simp
qed

section \<open>The idempotent skip\<close>

text \<open>
  C5: for an epoch that storage reports as synchronized, the epoch step returns
  \<^verbatim>\<open>(true, nil)\<close> and leaves every part of the state as it was: no call on the chain
  node or on storage is recorded and storage is unchanged. A second call therefore does
  the same.
\<close>

theorem syncEpoch_skip:
  assumes "IsEpochSynchronized env (database s) epoch"
  shows "syncEpoch env epoch s = Some (Returns (True, None), s)
       \<and> Option.bind (syncEpoch env epoch s) (\<lambda>(r, s1). syncEpoch env epoch s1)
           = Some (Returns (True, None), s)"
  using assms by (simp add: syncEpoch_def)

theorem syncEpoch_skip_witness:
  "IsEpochSynchronized example_env
     (database (example_world\<lparr>database := \<lparr>synced_epochs = [1], sync_state = None\<rparr>\<rparr>)) 1
   \<and> syncEpoch example_env 1
         (example_world\<lparr>database := \<lparr>synced_epochs = [1], sync_state = None\<rparr>\<rparr>)
       = Some (Returns (True, None),
               example_world\<lparr>database := \<lparr>synced_epochs = [1], sync_state = None\<rparr>\<rparr>)"
proof -
  have a: "IsEpochSynchronized example_env
     (database (example_world\<lparr>database := \<lparr>synced_epochs = [1], sync_state = None\<rparr>\<rparr>)) 1"
    by (simp add: example_env_def example_world_def)
  from syncEpoch_skip [OF a] a show ?thesis by simp
qed

section \<open>Atomicity of the persist\<close>

text \<open>
  C4: when the loops end, the epoch step returns. Whenever it returns, for any epoch,
  storage is as before if the step does not answer \<^verbatim>\<open>(true, nil)\<close>, and in
  particular if opening the transaction, writing the epoch's data, writing the sync
  state or the commit fails. When storage has changed, it is the one transaction's
  copy after both writes: the epoch's data and the sync state are never written one
  without the other. (\<open>isl\<close> holds of a write that failed, \<open>Inl\<close> with its error.)
\<close>

theorem syncEpoch_atomic:
  "(loops_end env epoch \<longrightarrow> (\<exists>res s'. syncEpoch env epoch s = Some (res, s'))) \<and>
   (\<forall>res s'. syncEpoch env epoch s = Some (res, s') \<longrightarrow>
      (res \<noteq> Returns (True, None) \<longrightarrow> database s' = database s) \<and>
      (Beginx env \<noteq> None \<longrightarrow> database s' = database s) \<and>
      ((\<forall>cache stats votes. isl (persistEpochData env epoch cache stats votes (database s)))
         \<longrightarrow> database s' = database s) \<and>
      ((\<forall>tx. isl (SetExplorerState env ''indexer.syncstate'' epoch tx))
         \<longrightarrow> database s' = database s) \<and>
      (tx_Commit env \<noteq> None \<longrightarrow> database s' = database s) \<and>
      (database s' \<noteq> database s \<longrightarrow>
         (\<exists>cache stats votes tx1.
            persistEpochData env epoch cache stats votes (database s) = Inr tx1 \<and>
            SetExplorerState env ''indexer.syncstate'' epoch tx1 = Inr (database s'))))"
proof (intro conjI impI allI)
  assume "loops_end env epoch"
  then show "\<exists>res s'. syncEpoch env epoch s = Some (res, s')"
    by (rule syncEpoch_returns)
next
  fix res s'
  assume run: "syncEpoch env epoch s = Some (res, s')"
  have changed: "storage_effect env epoch s res s' \<and> res = Returns (True, None)"
    if "database s' \<noteq> database s"
    using syncEpoch_partial(3) [OF run that] .
  then have committed: "Beginx env = None \<and> tx_Commit env = None \<and>
        (\<exists>cache stats votes tx1.
           persistEpochData env epoch cache stats votes (database s) = Inr tx1 \<and>
           SetExplorerState env ''indexer.syncstate'' epoch tx1 = Inr (database s'))"
    if "database s' \<noteq> database s"
    using that by (simp add: storage_effect_def)
  {
    assume "res \<noteq> Returns (True, None)"
    with changed show "database s' = database s" by blast
  next
    assume "Beginx env \<noteq> None"
    with committed show "database s' = database s" by blast
  next
    assume "\<forall>cache stats votes. isl (persistEpochData env epoch cache stats votes (database s))"
    with committed show "database s' = database s" by (metis sum.disc(2))
  next
    assume "\<forall>tx. isl (SetExplorerState env ''indexer.syncstate'' epoch tx)"
    with committed show "database s' = database s" by (metis sum.disc(2))
  next
    assume "tx_Commit env \<noteq> None"
    with committed show "database s' = database s" by blast
  next
    assume "database s' \<noteq> database s"
    with committed show "\<exists>cache stats votes tx1.
           persistEpochData env epoch cache stats votes (database s) = Inr tx1 \<and>
           SetExplorerState env ''indexer.syncstate'' epoch tx1 = Inr (database s')"
      by blast
  }
qed

theorem syncEpoch_atomic_witness:
  "loops_end (example_env\<lparr>tx_Commit := Some (Cause ''commit'')\<rparr>) 0
   \<and> tx_Commit (example_env\<lparr>tx_Commit := Some (Cause ''commit'')\<rparr>) \<noteq> None
   \<and> (\<exists>res s'. syncEpoch (example_env\<lparr>tx_Commit := Some (Cause ''commit'')\<rparr>) 0 example_world
                   = Some (res, s')
              \<and> database s' = database example_world)
   \<and> map_option (\<lambda>(r, s). (r, database s))
         (syncEpoch (example_env\<lparr>tx_Commit := Some (Cause ''commit'')\<rparr>) 0 example_world)
       = Some (Returns (False, Some (CommitError (Cause ''commit''))),
               \<lparr>synced_epochs = [], sync_state = None\<rparr>)"
proof -
  have a: "loops_end (example_env\<lparr>tx_Commit := Some (Cause ''commit'')\<rparr>) 0"
    by (simp add: loops_end_def example_env_def)
  have b: "tx_Commit (example_env\<lparr>tx_Commit := Some (Cause ''commit'')\<rparr>) \<noteq> None"
    by simp
  have c: "map_option (\<lambda>(r, s). (r, database s))
         (syncEpoch (example_env\<lparr>tx_Commit := Some (Cause ''commit'')\<rparr>) 0 example_world)
       = Some (Returns (False, Some (CommitError (Cause ''commit''))),
               \<lparr>synced_epochs = [], sync_state = None\<rparr>)"
    by code_simp
  from syncEpoch_atomic [of "example_env\<lparr>tx_Commit := Some (Cause ''commit'')\<rparr>" 0 example_world] a
  obtain res s' where
    run: "syncEpoch (example_env\<lparr>tx_Commit := Some (Cause ''commit'')\<rparr>) 0 example_world
            = Some (res, s')"
    by blast
  from syncEpoch_atomic [of "example_env\<lparr>tx_Commit := Some (Cause ''commit'')\<rparr>" 0 example_world]
    run b
  have "database s' = database example_world"
    by blast
  with run
  have "\<exists>res s'. syncEpoch (example_env\<lparr>tx_Commit := Some (Cause ''commit'')\<rparr>) 0 example_world
                   = Some (res, s')
              \<and> database s' = database example_world"
    by blast
  with a b c show ?thesis by simp
qed

section \<open>The target root\<close>

text \<open>
  C6: when the loops end, the part of the epoch step from line 206 on returns, and the
  target root it hands to the vote aggregation is the one of the spec's words, taken
  over the cache as it is at line 206: empty when no slot of the epoch has a cached
  block; else the root of the first cached block of the epoch when the slot in its
  header is the epoch's first slot, and that block's parent root when not. So every
  epoch step that is not skipped and answers \<^verbatim>\<open>(true, nil)\<close> has handed on this target
  root of the cache \<open>s1\<close> it had after its fetch loop.
\<close>

theorem syncEpoch_targetRoot:
  assumes le: "loops_end env epoch"
  shows "(\<exists>res s' targetRoot rest.
            syncEpoch_process env epoch stats s = Some (res, s') \<and>
            calls s' = calls s @ Call_aggregateEpochVotes epoch targetRoot # rest \<and>
            spec_targetRoot (cachedBlocks s) (epoch * SlotsPerEpoch env)
              (epoch * SlotsPerEpoch env + SlotsPerEpoch env - 1) targetRoot)
       \<and> (\<forall>s0 s'.
            \<not> IsEpochSynchronized env (database s0) epoch \<and>
            syncEpoch env epoch s0 = Some (Returns (True, None), s') \<longrightarrow>
            (\<exists>s1 targetRoot rest.
               fetch_frame (epoch * SlotsPerEpoch env)
                 (epoch * SlotsPerEpoch env + (SlotsPerEpoch env * 2) - 1) s0 s1 \<and>
               calls s' = calls s1 @ Call_aggregateEpochVotes epoch targetRoot # rest \<and>
               spec_targetRoot (cachedBlocks s1) (epoch * SlotsPerEpoch env)
                 (epoch * SlotsPerEpoch env + SlotsPerEpoch env - 1) targetRoot))"
proof -
  from le have l2: "epoch * SlotsPerEpoch env + (SlotsPerEpoch env * 2) - 1 \<noteq> - 1"
    and l1: "epoch * SlotsPerEpoch env + SlotsPerEpoch env - 1 \<noteq> - 1"
    by (simp_all add: loops_end_def)
  have part: "\<exists>res s' targetRoot rest.
            syncEpoch_process env epoch st s1 = Some (res, s') \<and>
            calls s' = calls s1 @ Call_aggregateEpochVotes epoch targetRoot # rest \<and>
            spec_targetRoot (cachedBlocks s1) (epoch * SlotsPerEpoch env)
              (epoch * SlotsPerEpoch env + SlotsPerEpoch env - 1) targetRoot" for st s1
    using l1
  proof (cases rule: syncEpoch_process_cases [of epoch env st s1])
    case (failed err s' fb rest)
    from find_firstBlock_targetRoot [OF failed(2) l1] failed(1,3) show ?thesis
      by blast
  next
    case (saved s' fb rest votes tx1)
    from find_firstBlock_targetRoot [OF saved(2) l1] saved(1,3) show ?thesis
      by blast
  qed
  have whole: "\<exists>s1 targetRoot rest.
               fetch_frame (epoch * SlotsPerEpoch env)
                 (epoch * SlotsPerEpoch env + (SlotsPerEpoch env * 2) - 1) s0 s1 \<and>
               calls s' = calls s1 @ Call_aggregateEpochVotes epoch targetRoot # rest \<and>
               spec_targetRoot (cachedBlocks s1) (epoch * SlotsPerEpoch env)
                 (epoch * SlotsPerEpoch env + SlotsPerEpoch env - 1) targetRoot"
    if ns: "\<not> IsEpochSynchronized env (database s0) epoch"
      and ok: "syncEpoch env epoch s0 = Some (Returns (True, None), s')" for s0 s'
    using l2 ns
  proof (cases rule: syncEpoch_cases)
    case (stopped res s'')
    with ok show ?thesis by simp
  next
    case (process st s1)
    from part [of st s1] obtain res s'' targetRoot rest where
      "syncEpoch_process env epoch st s1 = Some (res, s'')"
      "calls s'' = calls s1 @ Call_aggregateEpochVotes epoch targetRoot # rest"
      "spec_targetRoot (cachedBlocks s1) (epoch * SlotsPerEpoch env)
              (epoch * SlotsPerEpoch env + SlotsPerEpoch env - 1) targetRoot"
      by blast
    with process(1,2) ok show ?thesis
      by auto
  qed
  from part [of stats s] whole show ?thesis
    by blast
qed

theorem syncEpoch_targetRoot_witness:
  "loops_end example_env 2
   \<and> (\<exists>res s' rest.
         syncEpoch_process example_env 2 example_stats
           (example_world\<lparr>cachedBlocks := [5 \<mapsto> example_block5]\<rparr>) = Some (res, s')
         \<and> calls s' = Call_aggregateEpochVotes 2 [2] # rest)"
proof -
  let ?w = "example_world\<lparr>cachedBlocks := [5 \<mapsto> example_block5]\<rparr>"
  have a: "loops_end example_env 2"
    by (simp add: loops_end_def example_env_def)
  from syncEpoch_targetRoot [OF a, of example_stats ?w, THEN conjunct1]
  obtain res s' targetRoot rest where
    run: "syncEpoch_process example_env 2 example_stats ?w = Some (res, s')"
    and log: "calls s' = calls ?w @ Call_aggregateEpochVotes 2 targetRoot # rest"
    and tr: "spec_targetRoot (cachedBlocks ?w) (2 * SlotsPerEpoch example_env)
               (2 * SlotsPerEpoch example_env + SlotsPerEpoch example_env - 1) targetRoot"
    by blast
  from tr have sp: "spec_targetRoot [5 \<mapsto> example_block5] 4 5 targetRoot"
    by (simp add: example_env_def)
  have "targetRoot = [2]"
    using sp unfolding spec_targetRoot_def
    apply -
    apply (drule conjunct2)
    apply (drule spec [of _ 5])
    apply (drule spec [of _ example_block5])
    apply (simp add: example_block5_def)
    done
  with run log a show ?thesis
    by (simp add: example_world_def)
qed

section \<open>Eviction after the commit\<close>

text \<open>
  C7: when an epoch step for any epoch that was not skipped answers \<^verbatim>\<open>(true, nil)\<close>,
  which it does only after the commit, its cache is the cache \<open>s1\<close> had when the transaction was
  opened (line 227, reached from the start state through the fetch loop) with exactly
  the epoch's own slots removed; every entry of the next epoch's slots is as in \<open>s1\<close>,
  and every slot outside the epoch that the high-water mark already covered when the
  step began is as it was then.
\<close>

theorem syncEpoch_evicts_own_slots:
  assumes ns: "\<not> IsEpochSynchronized env (database s) epoch"
    and ok: "syncEpoch env epoch s = Some (Returns (True, None), s')"
  shows "\<exists>stats s1.
     syncEpoch_process env epoch stats s1 = Some (Returns (True, None), s') \<and>
     fetch_frame (epoch * SlotsPerEpoch env)
       (epoch * SlotsPerEpoch env + (SlotsPerEpoch env * 2) - 1) s s1 \<and>
     (\<forall>k. cachedBlocks s' k =
        (if epoch * SlotsPerEpoch env \<le> k \<and> k \<le> epoch * SlotsPerEpoch env + SlotsPerEpoch env - 1
         then None else cachedBlocks s1 k)) \<and>
     (\<forall>k. epoch * SlotsPerEpoch env + SlotsPerEpoch env \<le> k \<and>
          k \<le> epoch * SlotsPerEpoch env + (SlotsPerEpoch env * 2) - 1
          \<longrightarrow> cachedBlocks s' k = cachedBlocks s1 k) \<and>
     (\<forall>k. k \<le> cachedSlot s \<and>
          \<not> (epoch * SlotsPerEpoch env \<le> k \<and> k \<le> epoch * SlotsPerEpoch env + SlotsPerEpoch env - 1)
          \<longrightarrow> cachedBlocks s' k = cachedBlocks s k)"
proof -
  have le: "loops_end env epoch"
    using syncEpoch_partial(2) [OF ok _ ns] by simp
  from le have l2: "epoch * SlotsPerEpoch env + (SlotsPerEpoch env * 2) - 1 \<noteq> - 1"
    and l1: "epoch * SlotsPerEpoch env + SlotsPerEpoch env - 1 \<noteq> - 1"
    by (simp_all add: loops_end_def)
  from l2 ns show ?thesis
  proof (cases rule: syncEpoch_cases)
    case (stopped res s'')
    with ok show ?thesis by simp
  next
    case (process stats s1)
    with ok have p: "syncEpoch_process env epoch stats s1 = Some (Returns (True, None), s')"
      by simp
    from l1 have cache: "cachedBlocks s' =
        (\<lambda>k. if epoch * SlotsPerEpoch env \<le> k \<and> k \<le> epoch * SlotsPerEpoch env + SlotsPerEpoch env - 1
              then None else cachedBlocks s1 k)"
    proof (cases rule: syncEpoch_process_cases [of epoch env stats s1])
      case (failed err s'' fb rest)
      with p show ?thesis by simp
    next
      case (saved s'' fb rest votes tx1)
      with p show ?thesis by simp
    qed
    have "cachedBlocks s' k = cachedBlocks s1 k"
      if "epoch * SlotsPerEpoch env + SlotsPerEpoch env \<le> k" for k
    proof -
      have "(epoch * SlotsPerEpoch env + SlotsPerEpoch env - 1) + 1 \<le> k"
        using that by simp
      with l1 have "\<not> k \<le> epoch * SlotsPerEpoch env + SlotsPerEpoch env - 1"
        by (rule word_above_bound)
      then show ?thesis by (simp add: cache)
    qed
    moreover have "cachedBlocks s' k = cachedBlocks s k"
      if "k \<le> cachedSlot s"
        "\<not> (epoch * SlotsPerEpoch env \<le> k \<and> k \<le> epoch * SlotsPerEpoch env + SlotsPerEpoch env - 1)"
      for k
    proof -
      from that(1) have "\<not> cachedSlot s < k" by simp
      with fetch_frameD(5) [OF process(2), of k] have "cachedBlocks s1 k = cachedBlocks s k"
        by blast
      with that(2) show ?thesis by (auto simp: cache)
    qed
    ultimately show ?thesis
      using p process(2) cache
      by (intro exI [of _ stats] exI [of _ s1]) simp
  qed
qed

theorem syncEpoch_evicts_own_slots_witness:
  "loops_end example_env 0
   \<and> \<not> IsEpochSynchronized example_env (database example_world) 0
   \<and> (\<exists>s'. syncEpoch example_env 0 example_world = Some (Returns (True, None), s')
          \<and> cachedBlocks s' 1 = None)
   \<and> map_option (\<lambda>(r, s). (r, map (cachedBlocks s) [0, 1, 2, 3]))
        (syncEpoch example_env 0 example_world)
      = Some (Returns (True, None),
          [None, None,
           Some \<lparr>Root = [2], Slot = 2,
                 header = \<lparr>Message_Slot = 2, Message_ParentRoot = [1]\<rparr>, block = 0\<rparr>,
           None])"
proof -
  have a: "loops_end example_env 0"
    by (simp add: loops_end_def example_env_def)
  have b: "\<not> IsEpochSynchronized example_env (database example_world) 0"
    by (simp add: example_env_def example_world_def)
  have c: "map_option (\<lambda>(r, s). (r, map (cachedBlocks s) [0, 1, 2, 3]))
        (syncEpoch example_env 0 example_world)
      = Some (Returns (True, None),
          [None, None,
           Some \<lparr>Root = [2], Slot = 2,
                 header = \<lparr>Message_Slot = 2, Message_ParentRoot = [1]\<rparr>, block = 0\<rparr>,
           None])"
    by code_simp
  then obtain s' where ok: "syncEpoch example_env 0 example_world = Some (Returns (True, None), s')"
    by auto
  from syncEpoch_evicts_own_slots [OF b ok]
  obtain s1 :: "example_db world" where "\<forall>k. cachedBlocks s' k =
      (if 0 * SlotsPerEpoch example_env \<le> k \<and>
          k \<le> 0 * SlotsPerEpoch example_env + SlotsPerEpoch example_env - 1
       then None else cachedBlocks s1 k)"
    by blast
  from this [rule_format, of 1] have "cachedBlocks s' 1 = None"
    by (simp add: example_env_def)
  with a b c ok show ?thesis by blast
qed

section \<open>Absent headers and failing calls in the fetch loop\<close>

text \<open>
  C8: at a slot of the fetch loop above the high-water mark, a header answer that is
  nil without an error makes the loop go on with the next slot, with the request
  recorded and the cache as it was; a header request that returns an error, and a body
  request that returns an error, end the loop at once with \<^verbatim>\<open>(false, error)\<close>; and
  whatever ends the loop is the answer of the epoch step, which goes no further (the
  last two parts: lines 155-204 return what the loop returns, and \<^verbatim>\<open>syncEpoch\<close> is
  these lines once the assignments are loaded and no stop signal is taken).
\<close>

theorem load_blocks_absent_or_error:
  assumes "slot \<le> lastSlot" "cachedSlot s < slot"
  shows "(GetBlockHeaderBySlot env slot = Returns (None, None) \<longrightarrow>
            load_blocks env slot lastSlot s
              = load_blocks env (slot + 1) lastSlot (logc (Call_GetBlockHeaderBySlot slot) s)
            \<and> cachedBlocks (logc (Call_GetBlockHeaderBySlot slot) s) = cachedBlocks s)
       \<and> (\<forall>h err. GetBlockHeaderBySlot env slot = Returns (h, Some err) \<longrightarrow>
            load_blocks env slot lastSlot s
              = Some (Some (Returns (False, Some (FetchHeaderError slot err))),
                      logc (Call_GetBlockHeaderBySlot slot) s))
       \<and> (\<forall>h b err s2.
            GetBlockHeaderBySlot env slot = Returns (Some h, None) \<and>
            checkKillChan 0 (logc (Call_GetBlockHeaderBySlot slot) s) = (False, s2) \<and>
            GetBlockBodyByBlockroot env (Data_Root h) = Returns (b, Some err) \<longrightarrow>
            load_blocks env slot lastSlot s
              = Some (Some (Returns (False, Some (FetchBlockError slot err))),
                      logc (Call_GetBlockBodyByBlockroot (Data_Root h)) s2))
       \<and> (\<forall>epoch assignments s0 r s1.
            load_blocks env (epoch * SlotsPerEpoch env)
              (epoch * SlotsPerEpoch env + (SlotsPerEpoch env * 2) - 1) s0 = Some (Some r, s1) \<longrightarrow>
            syncEpoch_fetch env epoch assignments s0 = Some (r, s1))
       \<and> (\<forall>epoch assignments s0 s2.
            \<not> IsEpochSynchronized env (database s0) epoch \<and>
            GetEpochAssignments env epoch = Returns (Some assignments, None) \<and>
            checkKillChan 0 (logc (Call_GetEpochAssignments epoch) s0) = (False, s2) \<longrightarrow>
            syncEpoch env epoch s0 = syncEpoch_fetch env epoch assignments s2)"
proof -
  from assms(2) have nc: "\<not> slot \<le> cachedSlot s" by simp
  have unf: "load_blocks env slot lastSlot s =
      (case load_slot env slot s of
         (Some r, s') \<Rightarrow> Some (Some r, s')
       | (None, s') \<Rightarrow> load_blocks env (slot + 1) lastSlot s')"
    unfolding load_blocks_def using assms(1) by (subst for_slots.simps) simp
  have a: "load_blocks env slot lastSlot s
              = load_blocks env (slot + 1) lastSlot (logc (Call_GetBlockHeaderBySlot slot) s)"
    if "GetBlockHeaderBySlot env slot = Returns (None, None)"
    using that nc by (simp add: unf load_slot_def)
  have b: "load_blocks env slot lastSlot s
              = Some (Some (Returns (False, Some (FetchHeaderError slot err))),
                      logc (Call_GetBlockHeaderBySlot slot) s)"
    if "GetBlockHeaderBySlot env slot = Returns (h, Some err)" for h err
    using that nc by (simp add: unf load_slot_def)
  have c: "load_blocks env slot lastSlot s
              = Some (Some (Returns (False, Some (FetchBlockError slot err))),
                      logc (Call_GetBlockBodyByBlockroot (Data_Root h)) s2)"
    if "GetBlockHeaderBySlot env slot = Returns (Some h, None)"
      "checkKillChan 0 (logc (Call_GetBlockHeaderBySlot slot) s) = (False, s2)"
      "GetBlockBodyByBlockroot env (Data_Root h) = Returns (b, Some err)" for h b err s2
    using that nc by (simp add: unf load_slot_def)
  have d: "syncEpoch_fetch env epoch assignments s0 = Some (r, s1)"
    if "load_blocks env (epoch * SlotsPerEpoch env)
              (epoch * SlotsPerEpoch env + (SlotsPerEpoch env * 2) - 1) s0 = Some (Some r, s1)"
    for epoch assignments s0 r s1
    using that by (simp add: syncEpoch_fetch_def)
  have e: "cachedBlocks (logc (Call_GetBlockHeaderBySlot slot) s) = cachedBlocks s"
    by simp
  have f: "syncEpoch env epoch s0 = syncEpoch_fetch env epoch assignments s2"
    if "\<not> IsEpochSynchronized env (database s0) epoch"
      "GetEpochAssignments env epoch = Returns (Some assignments, None)"
      "checkKillChan 0 (logc (Call_GetEpochAssignments epoch) s0) = (False, s2)"
    for epoch assignments s0 s2
    using that by (simp add: syncEpoch_def)
  from a b c d e f show ?thesis by blast
qed

theorem load_blocks_absent_or_error_witness:
  "(3 :: u64) \<le> 3 \<and> cachedSlot example_world < 3
   \<and> GetBlockHeaderBySlot example_env 3 = Returns (None, None)
   \<and> load_blocks example_env 3 3 example_world
       = load_blocks example_env (3 + 1) 3 (logc (Call_GetBlockHeaderBySlot 3) example_world)
   \<and> GetBlockHeaderBySlot
        (example_env\<lparr>GetBlockHeaderBySlot := (\<lambda>slot. Returns (None, Some (Cause ''timeout'')))\<rparr>) 3
       = Returns (None, Some (Cause ''timeout''))
   \<and> load_blocks
        (example_env\<lparr>GetBlockHeaderBySlot := (\<lambda>slot. Returns (None, Some (Cause ''timeout'')))\<rparr>)
        3 3 example_world
       = Some (Some (Returns (False, Some (FetchHeaderError 3 (Cause ''timeout'')))),
               logc (Call_GetBlockHeaderBySlot 3) example_world)"
proof -
  let ?env = "example_env\<lparr>GetBlockHeaderBySlot := (\<lambda>slot. Returns (None, Some (Cause ''timeout'')))\<rparr>"
  have a: "(3 :: u64) \<le> 3" by simp
  have b: "cachedSlot example_world < 3" by (simp add: example_world_def)
  have c: "GetBlockHeaderBySlot example_env 3 = Returns (None, None)"
    by (simp add: example_env_def example_header_def)
  have d: "GetBlockHeaderBySlot ?env 3 = Returns (None, Some (Cause ''timeout''))"
    by simp
  from load_blocks_absent_or_error [OF a b, of example_env] c
  have e: "load_blocks example_env 3 3 example_world
       = load_blocks example_env (3 + 1) 3 (logc (Call_GetBlockHeaderBySlot 3) example_world)"
    by blast
  from load_blocks_absent_or_error [OF a b, of ?env] d
  have f: "load_blocks ?env 3 3 example_world
       = Some (Some (Returns (False, Some (FetchHeaderError 3 (Cause ''timeout'')))),
               logc (Call_GetBlockHeaderBySlot 3) example_world)"
    by blast
  from a b c d e f show ?thesis by blast
qed

section \<open>The cache along the epochs\<close>

text \<open>
  C9 (as the code has it): when the loops end, an epoch step returns; every header
  request it makes is for a slot above the high-water mark it started with, and the
  mark stays or moves to the last slot of the next epoch. If the cache held no slot
  below the epoch's first slot before the step, it holds none after it, and after a
  step that was not skipped and answered \<^verbatim>\<open>(true, nil)\<close> it holds no slot below the
  first slot of the next epoch.
\<close>

theorem syncEpoch_cache_monotone:
  assumes le: "loops_end env epoch"
  shows "\<exists>res s'. syncEpoch env epoch s = Some (res, s') \<and>
     (\<exists>new. calls s' = calls s @ new \<and>
        (\<forall>k. Call_GetBlockHeaderBySlot k \<in> set new \<longrightarrow> cachedSlot s < k)) \<and>
     (cachedSlot s' = cachedSlot s \<or>
      cachedSlot s' = epoch * SlotsPerEpoch env + (SlotsPerEpoch env * 2) - 1) \<and>
     ((\<forall>k. cachedBlocks s k \<noteq> None \<longrightarrow> epoch * SlotsPerEpoch env \<le> k) \<longrightarrow>
        (\<forall>k. cachedBlocks s' k \<noteq> None \<longrightarrow> epoch * SlotsPerEpoch env \<le> k) \<and>
        (res = Returns (True, None) \<and> \<not> IsEpochSynchronized env (database s) epoch \<longrightarrow>
           (\<forall>k. cachedBlocks s' k \<noteq> None \<longrightarrow> (epoch + 1) * SlotsPerEpoch env \<le> k)))"
proof -
  let ?first = "epoch * SlotsPerEpoch env"
  let ?last1 = "epoch * SlotsPerEpoch env + SlotsPerEpoch env - 1"
  let ?last2 = "epoch * SlotsPerEpoch env + (SlotsPerEpoch env * 2) - 1"
  from le have l2: "?last2 \<noteq> - 1" and l1: "?last1 \<noteq> - 1"
    by (simp_all add: loops_end_def)
  have next_first: "(epoch + 1) * SlotsPerEpoch env = ?last1 + 1"
    by (simp add: distrib_right)
  show ?thesis
  proof (cases "IsEpochSynchronized env (database s) epoch")
    case True
    then have "syncEpoch env epoch s = Some (Returns (True, None), s)"
      by (simp add: syncEpoch_def)
    with True show ?thesis by simp
  next
    case False
    have frame_log: "\<exists>new. calls s1 = calls s @ new \<and>
          (\<forall>k. Call_GetBlockHeaderBySlot k \<in> set new \<longrightarrow> cachedSlot s < k)"
      if "fetch_frame ?first ?last2 s s1" for s1
      using fetch_frameD(6) [OF that] by blast
    have frame_cache: "\<forall>k. cachedBlocks s1 k \<noteq> None \<longrightarrow> ?first \<le> k"
      if "fetch_frame ?first ?last2 s s1" "\<forall>k. cachedBlocks s k \<noteq> None \<longrightarrow> ?first \<le> k" for s1
      using fetch_frameD(5) [OF that(1)] that(2) by metis
    from l2 False show ?thesis
    proof (cases rule: syncEpoch_cases)
      case (stopped res s')
      show ?thesis
        using stopped(1,2) frame_log [OF stopped(3)] fetch_frameD(4) [OF stopped(3)]
          frame_cache [OF stopped(3)]
        by (intro exI [of _ res] exI [of _ s'] conjI impI) simp_all
    next
      case (process stats s1)
      note log1 = frame_log [OF process(2)]
      from l1 show ?thesis
      proof (cases rule: syncEpoch_process_cases [of epoch env stats s1])
        case (failed err s' fb rest)
        from log1 obtain new where new: "calls s1 = calls s @ new"
          "\<forall>k. Call_GetBlockHeaderBySlot k \<in> set new \<longrightarrow> cachedSlot s < k"
          by blast
        have "calls s' = calls s @ (new @ Call_aggregateEpochVotes epoch (targetRoot_of fb ?first) # rest)"
          using failed(3) new(1) by simp
        moreover have "\<forall>k. Call_GetBlockHeaderBySlot k
            \<in> set (new @ Call_aggregateEpochVotes epoch (targetRoot_of fb ?first) # rest)
            \<longrightarrow> cachedSlot s < k"
          using new(2) failed(4) by auto
        ultimately have lg: "\<exists>new. calls s' = calls s @ new \<and>
            (\<forall>k. Call_GetBlockHeaderBySlot k \<in> set new \<longrightarrow> cachedSlot s < k)"
          by blast
        have hw: "cachedSlot s' = ?last2"
          using failed(7) process(3) by simp
        have eq: "syncEpoch env epoch s = Some (Returns (False, Some err), s')"
          using failed(1) process(1) by simp
        show ?thesis
          using eq lg hw frame_cache [OF process(2)] failed(9)
          by (intro exI [of _ "Returns (False, Some err)"] exI [of _ s'] conjI impI) simp_all
      next
        case (saved s' fb rest votes tx1)
        from log1 obtain new where new: "calls s1 = calls s @ new"
          "\<forall>k. Call_GetBlockHeaderBySlot k \<in> set new \<longrightarrow> cachedSlot s < k"
          by blast
        have "calls s' = calls s @ (new @ Call_aggregateEpochVotes epoch (targetRoot_of fb ?first) # rest)"
          using saved(3) new(1) by simp
        moreover have "\<forall>k. Call_GetBlockHeaderBySlot k
            \<in> set (new @ Call_aggregateEpochVotes epoch (targetRoot_of fb ?first) # rest)
            \<longrightarrow> cachedSlot s < k"
          using new(2) saved(4) by auto
        ultimately have lg: "\<exists>new. calls s' = calls s @ new \<and>
            (\<forall>k. Call_GetBlockHeaderBySlot k \<in> set new \<longrightarrow> cachedSlot s < k)"
          by blast
        have hw: "cachedSlot s' = ?last2"
          using saved(7) process(3) by simp
        have eq: "syncEpoch env epoch s = Some (Returns (True, None), s')"
          using saved(1) process(1) by simp
        have above: "(epoch + 1) * SlotsPerEpoch env \<le> k \<and> ?first \<le> k"
          if inv: "\<forall>k. cachedBlocks s k \<noteq> None \<longrightarrow> ?first \<le> k" and k: "cachedBlocks s' k \<noteq> None"
          for k
        proof -
          from k saved(9) have out: "\<not> (?first \<le> k \<and> k \<le> ?last1)" and in1: "cachedBlocks s1 k \<noteq> None"
            by (auto split: if_splits)
          from frame_cache [OF process(2) inv] in1 have f: "?first \<le> k"
            by simp
          with out have "\<not> k \<le> ?last1" by simp
          with l1 have "?last1 + 1 \<le> k" by (rule word_not_le_bound)
          with f show ?thesis by (simp add: next_first)
        qed
        show ?thesis
          using eq lg hw above
          by (intro exI [of _ "Returns (True, None)"] exI [of _ s'] conjI impI allI) simp_all
      qed
    qed
  qed
qed

theorem syncEpoch_cache_monotone_witness:
  "loops_end example_env 0
   \<and> cachedBlocks example_world = Map.empty
   \<and> \<not> IsEpochSynchronized example_env (database example_world) 0
   \<and> (\<exists>s'. syncEpoch example_env 0 example_world = Some (Returns (True, None), s')
          \<and> cachedBlocks s' 0 = None \<and> cachedBlocks s' 1 = None)
   \<and> map_option (\<lambda>(r, s). (r, cachedSlot s, calls s)) (syncEpoch example_env 0 example_world)
      = Some (Returns (True, None), 3,
          [Call_GetEpochAssignments 0, Call_GetBlockHeaderBySlot 1,
           Call_GetBlockBodyByBlockroot [1], Call_GetBlockHeaderBySlot 2,
           Call_GetBlockBodyByBlockroot [2], Call_GetBlockHeaderBySlot 3,
           Call_loadValidatorStats 0, Call_aggregateEpochVotes 0 [0], Call_Beginx,
           Call_persistEpochData 0, Call_SetExplorerState ''indexer.syncstate'' 0,
           Call_Commit, Call_Rollback])"
proof -
  have a: "loops_end example_env 0"
    by (simp add: loops_end_def example_env_def)
  have b: "cachedBlocks example_world = Map.empty"
    by (simp add: example_world_def)
  have c: "\<not> IsEpochSynchronized example_env (database example_world) 0"
    by (simp add: example_env_def example_world_def)
  have d: "map_option (\<lambda>(r, s). (r, cachedSlot s, calls s)) (syncEpoch example_env 0 example_world)
      = Some (Returns (True, None), 3,
          [Call_GetEpochAssignments 0, Call_GetBlockHeaderBySlot 1,
           Call_GetBlockBodyByBlockroot [1], Call_GetBlockHeaderBySlot 2,
           Call_GetBlockBodyByBlockroot [2], Call_GetBlockHeaderBySlot 3,
           Call_loadValidatorStats 0, Call_aggregateEpochVotes 0 [0], Call_Beginx,
           Call_persistEpochData 0, Call_SetExplorerState ''indexer.syncstate'' 0,
           Call_Commit, Call_Rollback])"
    by code_simp
  then obtain s0 where ok: "syncEpoch example_env 0 example_world = Some (Returns (True, None), s0)"
    by auto
  from syncEpoch_cache_monotone [OF a, of example_world] ok b c
  have above: "\<forall>k. cachedBlocks s0 k \<noteq> None \<longrightarrow> (0 + 1) * SlotsPerEpoch example_env \<le> k"
    by simp
  have "\<not> (0 + 1) * SlotsPerEpoch example_env \<le> 0"
    and "\<not> (0 + 1) * SlotsPerEpoch example_env \<le> 1"
    by (simp_all add: example_env_def word_le_nat_alt)
  with above have "cachedBlocks s0 0 = None" and "cachedBlocks s0 1 = None"
    by blast+
  then show ?thesis
    using a b c d ok by blast
qed

text \<open>
  C9 as the spec words it, for any sequence of steps with increasing epochs, fails when
  a step is skipped: with epoch 1 already in storage, the steps for the epochs 0, 1 and 2
  all answer \<^verbatim>\<open>(true, nil)\<close>, the step for epoch 1 leaves the cache alone, and after
  the persist of epoch 2 the cache still holds slot 2, which is below the slots of
  epoch 2 and of epoch 3.
\<close>

theorem syncEpochs_stale_after_skip_counterexample:
  "map_option (\<lambda>(rs, s). (rs, synced_epochs (database s), cachedBlocks s 2 \<noteq> None))
     (syncEpochs example_env [0, 1, 2]
        (example_world\<lparr>database := \<lparr>synced_epochs = [1], sync_state = None\<rparr>\<rparr>))
   = Some ([Returns (True, None), Returns (True, None), Returns (True, None)], [2, 0, 1], True)
   \<and> (2 :: u64) < (2 + 1) * SlotsPerEpoch example_env"
  by code_simp

section \<open>A stop signal inside the epoch step\<close>

text \<open>
  C2 does not hold of the code. The epoch step takes the stop signal at line 151 and
  returns \<^verbatim>\<open>(false, nil)\<close> with nothing persisted, but the turn of the worker loop
  then only waits out the cooldown: it goes round again, and the worker, with no
  second signal, persists the epoch and moves the cursor on. The same happens for a
  signal taken at line 185.
\<close>

theorem runSync_stop_signal_lost:
  "map_option (\<lambda>(r, s). (r, calls s, killChan s))
     (syncEpoch example_env 0 (example_world\<lparr>killChan := [True]\<rparr>))
   = Some (Returns (False, None), [Call_GetEpochAssignments 0], [])
   \<and> map_option (\<lambda>(r, s). (r, currentEpoch s, synced_epochs (database s)))
     (runSync_turn example_env (example_world\<lparr>killChan := [True]\<rparr>))
   = Some (Returns None, 0, [])
   \<and> map_option (\<lambda>s. (running s, currentEpoch s, synced_epochs (database s), sync_state (database s)))
     (runSync (\<lambda>i. example_env) (example_world\<lparr>killChan := [True]\<rparr>))
   = Some (False, 1, [0], Some 0)
   \<and> map_option (\<lambda>(r, s). (r, cachedSlot s, killChan s))
     (syncEpoch example_env 0 (example_world\<lparr>killChan := [False, False, False, True]\<rparr>))
   = Some (Returns (False, None), 3, [])
   \<and> map_option (\<lambda>s. (running s, currentEpoch s, synced_epochs (database s), sync_state (database s)))
     (runSync (\<lambda>i. example_env) (example_world\<lparr>killChan := [False, False, False, True]\<rparr>))
   = Some (False, 1, [0], Some 0)"
  by code_simp

section \<open>A panic in the worker\<close>

text \<open>
  C3 does not hold of the code. A panic in the loop body is recovered and logged, and
  the worker ends, but line 116 is not reached: the running flag stays set and
  \<^verbatim>\<open>isEpochAhead\<close> still answers true. Shown for a panic in a call of the chain-node
  client and for the nil block response dereferenced at line 180.
\<close>

theorem runSync_panic_keeps_running:
  "map_option (\<lambda>s. (running s, isEpochAhead s 5, calls s))
     (runSync (\<lambda>i. example_env\<lparr>GetEpochAssignments := (\<lambda>epoch. Panics)\<rparr>) example_world)
   = Some (True, True, [Call_GetEpochAssignments 0, Log_uncaught_panic])
   \<and> map_option (\<lambda>s. (running s, isEpochAhead s 5, calls s))
     (runSync (\<lambda>i. example_env\<lparr>GetBlockBodyByBlockroot := (\<lambda>root. Returns (None, None))\<rparr>)
        example_world)
   = Some (True, True,
       [Call_GetEpochAssignments 0, Call_GetBlockHeaderBySlot 1,
        Call_GetBlockBodyByBlockroot [1], Log_uncaught_panic])"
  by code_simp

end
